theory Spec2Isabelle
  imports Main "HOL-Library.Sublist"
begin

section \<open>JavaScript strings and numbers\<close>

text \<open>
  A JavaScript string is a sequence of UTF-16 code units. It is modelled as the list of
  its code units, each a natural number; \<open>length\<close> then counts what \<open>.length\<close>
  counts. Every code unit of a real string is below 65536; no definition below depends
  on that bound. \<open>S\<close> turns an ASCII literal into such a list.
\<close>

type_synonym jstring = "nat list"

definition S :: "string \<Rightarrow> jstring" where
  "S s = map of_char s"

text \<open>
  \<open>String.prototype.trim\<close> removes WhiteSpace and LineTerminator code points from both
  ends: TAB, LF, VT, FF, CR, SP, NBSP, U+1680, U+2000..U+200A, U+2028, U+2029, U+202F,
  U+205F, U+3000 and U+FEFF.
\<close>

definition is_ws :: "nat \<Rightarrow> bool" where
  "is_ws c \<longleftrightarrow> (9 \<le> c \<and> c \<le> 13) \<or> c = 32 \<or> c = 160 \<or> c = 5760 \<or> (8192 \<le> c \<and> c \<le> 8202)
     \<or> c = 8232 \<or> c = 8233 \<or> c = 8239 \<or> c = 8287 \<or> c = 12288 \<or> c = 65279"

definition trim :: "jstring \<Rightarrow> jstring" where
  "trim s = rev (dropWhile is_ws (rev (dropWhile is_ws s)))"

fun startsWith :: "jstring \<Rightarrow> jstring \<Rightarrow> bool" where
  "startsWith s [] = True"
| "startsWith [] (p # ps) = False"
| "startsWith (c # cs) (p # ps) = (c = p \<and> startsWith cs ps)"

definition endsWith :: "jstring \<Rightarrow> jstring \<Rightarrow> bool" where
  "endsWith s p = startsWith (rev s) (rev p)"

text \<open>\<open>s.includes(sub)\<close>: \<open>sub\<close> occurs somewhere in \<open>s\<close>.\<close>

fun str_includes :: "jstring \<Rightarrow> jstring \<Rightarrow> bool" where
  "str_includes [] sub = (sub = [])"
| "str_includes (c # cs) sub = (startsWith (c # cs) sub \<or> str_includes cs sub)"

text \<open>\<open>s.split('\n')\<close>: never empty; the empty string gives one empty line.\<close>

fun split_nl :: "jstring \<Rightarrow> jstring list" where
  "split_nl [] = [[]]"
| "split_nl (c # cs) =
     (if c = 10 then [] # split_nl cs
      else (case split_nl cs of [] \<Rightarrow> [[c]] | l # ls \<Rightarrow> (c # l) # ls))"

text \<open>\<open>xs.join(sep)\<close>.\<close>

fun join :: "jstring \<Rightarrow> jstring list \<Rightarrow> jstring" where
  "join sep [] = []"
| "join sep [x] = x"
| "join sep (x # y # ys) = x @ sep @ join sep (y # ys)"


subsection \<open>Numbers\<close>

text \<open>
  A JavaScript number is an IEEE double. The numbers of this program are whole numbers,
  \<open>NaN\<close> and, from \<open>parseInt\<close> of a very long run of digits, an infinity: \<open>Num i\<close> is the
  double whose value is the integer \<open>i\<close>. Negative zero is not kept apart from zero: it
  prints as \<open>0\<close>, is falsy and adds like zero.
\<close>

datatype js_number = NaN | Num int | PosInfinity | NegInfinity

text \<open>
  The double nearest to an integer. Every integer of magnitude up to 2^53 is a double.
  A larger one is rounded to 53 significant bits, a tie to the even neighbour, and
  becomes an infinity from 2^1024 on.
\<close>

fun bitlength :: "nat \<Rightarrow> nat" where
  "bitlength n = (if n = 0 then 0 else Suc (bitlength (n div 2)))"

declare bitlength.simps [simp del]

definition round_to_double :: "nat \<Rightarrow> nat" where
  "round_to_double n =
     (if n < 2 ^ 53 then n
      else (let e = bitlength n - 53; q = n div 2 ^ e; r = n mod 2 ^ e; half = 2 ^ (e - 1)
            in (if r > half \<or> (r = half \<and> odd q) then q + 1 else q) * 2 ^ e))"

definition to_double :: "int \<Rightarrow> js_number" where
  "to_double i =
     (let m = round_to_double (nat \<bar>i\<bar>) in
      if m \<ge> 2 ^ 1024 then (if i < 0 then NegInfinity else PosInfinity)
      else Num (if i < 0 then - int m else int m))"

text \<open>The decimal digits that a template literal prints for a number.\<close>

fun show_nat :: "nat \<Rightarrow> jstring" where
  "show_nat n = (if n < 10 then [48 + n] else show_nat (n div 10) @ [48 + n mod 10])"

declare show_nat.simps [simp del]

definition show_int :: "int \<Rightarrow> jstring" where
  "show_int i = (if i < 0 then 45 # show_nat (nat (- i)) else show_nat (nat i))"

text \<open>
  A number in a template literal (\<open>Number::toString\<close>). A whole number of magnitude
  below 2^53 prints all its decimal digits. For a larger one the engine prints the
  shortest digits that read back as the same double, in exponent form from 1e21 on; that
  text is left to the engine, as the parameter \<open>pr\<close>.
\<close>

type_synonym number_printer = "int \<Rightarrow> jstring"

definition show_number :: "number_printer \<Rightarrow> js_number \<Rightarrow> jstring" where
  "show_number pr x =
     (case x of
        NaN \<Rightarrow> S ''NaN''
      | Num i \<Rightarrow> if \<bar>i\<bar> < 2 ^ 53 then show_int i else pr i
      | PosInfinity \<Rightarrow> S ''Infinity''
      | NegInfinity \<Rightarrow> S ''-Infinity'')"

text \<open>
  \<open>parseInt(s)\<close> with no radix: skip leading white space, read an optional sign, switch
  to radix 16 after a \<open>0x\<close> or \<open>0X\<close> prefix, then read the longest run of digits of the
  radix; no digit at all gives \<open>NaN\<close>. Whatever follows the digits is ignored. The
  result is the double nearest to the value of the digits (engines read the digits with
  correct rounding, although the standard lets them drop decimal digits after the 20th).
\<close>

definition digit_val :: "nat \<Rightarrow> nat option" where
  "digit_val c =
     (if 48 \<le> c \<and> c \<le> 57 then Some (c - 48)
      else if 97 \<le> c \<and> c \<le> 122 then Some (c - 87)
      else if 65 \<le> c \<and> c \<le> 90 then Some (c - 55)
      else None)"

definition is_radix_digit :: "nat \<Rightarrow> nat \<Rightarrow> bool" where
  "is_radix_digit R c = (case digit_val c of None \<Rightarrow> False | Some v \<Rightarrow> v < R)"

definition digits_value :: "nat \<Rightarrow> jstring \<Rightarrow> nat" where
  "digits_value R ds = foldl (\<lambda>acc c. acc * R + (case digit_val c of None \<Rightarrow> 0 | Some v \<Rightarrow> v)) 0 ds"

definition parseInt :: "jstring \<Rightarrow> js_number" where
  "parseInt str =
     (let s0 = dropWhile is_ws str;
          neg = startsWith s0 [45];
          s1 = (if startsWith s0 [45] \<or> startsWith s0 [43] then tl s0 else s0);
          hex = (startsWith s1 (S ''0x'') \<or> startsWith s1 (S ''0X''));
          R = (if hex then 16 else 10);
          s2 = (if hex then drop 2 s1 else s1);
          Z = takeWhile (is_radix_digit R) s2
      in if Z = [] then NaN
         else to_double ((if neg then - 1 else 1) * int (digits_value R Z)))"

section \<open>AI service: parsing the model's answer\<close>

record issue =
  itype :: jstring
  severity :: jstring
  line :: "js_number option"
  description :: jstring
  suggestion :: jstring
  example :: jstring

record ai_review =
  summary :: jstring
  issues :: "issue list"
  rawReview :: jstring

text \<open>\<open>extractValue\<close>: the text after the first colon of the line, trimmed.\<close>

definition extractValue :: "jstring \<Rightarrow> jstring" where
  "extractValue ln =
     (case dropWhile (\<lambda>c. c \<noteq> 58) ln of
        [] \<Rightarrow> []
      | colon # rest \<Rightarrow> trim rest)"

text \<open>
  The body of the \<open>for\<close> loop of \<open>parseReview\<close>. The state is the list \<open>issues\<close>
  (here \<open>iss\<close>) and \<open>currentIssue\<close> (\<open>None\<close> for \<open>null\<close>). \<open>new_issue\<close> is the object
  literal that a marker line creates; \<open>assign_field\<close> is the chain of field tests that
  runs when an issue is open.
\<close>

definition new_issue :: "jstring \<Rightarrow> issue" where
  "new_issue trimmedLine =
     \<lparr>itype = extractValue trimmedLine, severity = S ''MEDIUM'', line = None,
      description = [], suggestion = [], example = []\<rparr>"

definition assign_field :: "issue \<Rightarrow> jstring \<Rightarrow> issue" where
  "assign_field currentIssue trimmedLine =
     (if startsWith trimmedLine (S ''- **Severity**:'') then
        currentIssue\<lparr>severity := extractValue trimmedLine\<rparr>
      else if startsWith trimmedLine (S ''- **Line**:'') then
        (let lineValue = extractValue trimmedLine in
         currentIssue\<lparr>line := (if lineValue \<noteq> S ''N/A'' then Some (parseInt lineValue) else None)\<rparr>)
      else if startsWith trimmedLine (S ''- **Description**:'') then
        currentIssue\<lparr>description := extractValue trimmedLine\<rparr>
      else if startsWith trimmedLine (S ''- **Suggestion**:'') then
        currentIssue\<lparr>suggestion := extractValue trimmedLine\<rparr>
      else if startsWith trimmedLine (S ''- **Example**:'') then
        currentIssue\<lparr>example := extractValue trimmedLine\<rparr>
      else currentIssue)"

definition parse_line :: "issue list \<times> issue option \<Rightarrow> jstring \<Rightarrow> issue list \<times> issue option" where
  "parse_line st ln =
     (let iss = fst st; currentIssue = snd st; trimmedLine = trim ln in
      if startsWith trimmedLine (S ''- **Issue Type**:'') then
        ((case currentIssue of None \<Rightarrow> iss | Some cur \<Rightarrow> iss @ [cur]),
         Some (new_issue trimmedLine))
      else (case currentIssue of
          None \<Rightarrow> (iss, None)
        | Some cur \<Rightarrow> (iss, Some (assign_field cur trimmedLine))))"

text \<open>The whole loop, and the push of the last issue after it.\<close>

definition parse_lines :: "issue list \<times> issue option \<Rightarrow> jstring list \<Rightarrow> issue list" where
  "parse_lines st lns =
     (case foldl parse_line st lns of
        (iss, None) \<Rightarrow> iss
      | (iss, Some cur) \<Rightarrow> iss @ [cur])"

text \<open>
  The loop of \<open>extractSummary\<close>, with its \<open>break\<close>: \<open>summaryLines\<close> is the accumulator.
\<close>

fun summary_loop :: "jstring list \<Rightarrow> jstring list \<Rightarrow> jstring list" where
  "summary_loop summaryLines [] = summaryLines"
| "summary_loop summaryLines (ln # lns) =
     (let trimmedLine = trim ln in
      if trimmedLine \<noteq> [] \<and> \<not> startsWith trimmedLine (S ''- **'') then
        summary_loop (summaryLines @ [trimmedLine]) lns
      else if startsWith trimmedLine (S ''- **'') then summaryLines
      else summary_loop summaryLines lns)"

definition extractSummary :: "jstring \<Rightarrow> jstring" where
  "extractSummary reviewText =
     (let joined = trim (join (S '' '') (summary_loop [] (split_nl reviewText)))
      in if joined \<noteq> [] then joined else S ''Code review completed.'')"

definition parseReview :: "jstring \<Rightarrow> ai_review" where
  "parseReview reviewText =
     \<lparr>summary = extractSummary reviewText,
      issues = parse_lines ([], None) (split_nl reviewText),
      rawReview = reviewText\<rparr>"

text \<open>A line that, once trimmed, opens a new issue.\<close>

definition is_issue_marker :: "jstring \<Rightarrow> bool" where
  "is_issue_marker ln = startsWith (trim ln) (S ''- **Issue Type**:'')"

text \<open>
  The summary as the specification words it: the trimmed lines before the first one that
  starts with \<open>- **\<close>, the empty ones left out, joined by one space; the default text when
  nothing is left.
\<close>

definition summary_spec :: "jstring \<Rightarrow> jstring" where
  "summary_spec reviewText =
     (let collected = filter (\<lambda>t. t \<noteq> [])
            (takeWhile (\<lambda>t. \<not> startsWith t (S ''- **'')) (map trim (split_nl reviewText)));
          joined = join (S '' '') collected
      in if joined = [] then S ''Code review completed.'' else joined)"


text \<open>
  A well-formed response, built from issues with the documented markers: six lines per
  issue, in the order of the prompt's format, the value one space after the colon, the
  word \<open>N/A\<close> for an absent line number, the decimal digits for a present one; all lines
  joined by newlines. A line number is well formed when it is a positive integer below
  2^53, the range in which every integer is a JavaScript number.
\<close>

definition render_line :: "js_number option \<Rightarrow> jstring" where
  "render_line l =
     (case l of None \<Rightarrow> S ''N/A'' | Some (Num n) \<Rightarrow> show_int n | Some NaN \<Rightarrow> S ''NaN''
      | Some PosInfinity \<Rightarrow> S ''Infinity'' | Some NegInfinity \<Rightarrow> S ''-Infinity'')"

definition render_issue :: "issue \<Rightarrow> jstring list" where
  "render_issue i =
     [S ''- **Issue Type**: '' @ itype i,
      S ''- **Severity**: '' @ severity i,
      S ''- **Line**: '' @ render_line (line i),
      S ''- **Description**: '' @ description i,
      S ''- **Suggestion**: '' @ suggestion i,
      S ''- **Example**: '' @ example i]"

definition render_response :: "issue list \<Rightarrow> jstring" where
  "render_response is = join [10] (concat (map render_issue is))"

definition single_line_trimmed :: "jstring \<Rightarrow> bool" where
  "single_line_trimmed v \<longleftrightarrow> trim v = v \<and> 10 \<notin> set v"

definition well_formed_issue :: "issue \<Rightarrow> bool" where
  "well_formed_issue i \<longleftrightarrow>
     single_line_trimmed (itype i)
     \<and> severity i \<in> {S ''CRITICAL'', S ''HIGH'', S ''MEDIUM'', S ''LOW''}
     \<and> (case line i of None \<Rightarrow> True | Some (Num n) \<Rightarrow> 0 < n \<and> n < 2 ^ 53 | Some other \<Rightarrow> False)
     \<and> single_line_trimmed (description i)
     \<and> single_line_trimmed (suggestion i)
     \<and> single_line_trimmed (example i)"

section \<open>Diff parser\<close>

text \<open>
  The values of the configuration module that the code reads. \<open>maxDiffSize\<close> is
  \<open>parseInt(process.env.MAX_DIFF_SIZE) || 10000\<close>, any non-zero integer.
\<close>

record config =
  maxDiffSize :: int
  supportedLanguages :: "jstring list"
  skipFiles :: "jstring list"
  provider :: jstring
  openai_model :: jstring

datatype js_error = Error jstring | SyntaxError jstring

text \<open>
  A change record of the GitLab API. A missing \<open>diff\<close> (\<open>undefined\<close> or \<open>null\<close>) is \<open>None\<close>.
\<close>

record change =
  old_path :: jstring
  new_path :: jstring
  new_file :: bool
  deleted_file :: bool
  renamed_file :: bool
  diff :: "jstring option"

text \<open>
  \<open>detectLanguage\<close> returns a tag of its table or \<open>unknown\<close>. The table is an object
  literal, so the two lower-case property names it inherits from \<open>Object.prototype\<close>,
  \<open>constructor\<close> and \<open>__proto__\<close>, are found as well; their values are objects, not
  strings, and are kept apart as \<open>Inherited\<close>.
\<close>

datatype js_lang = Lang jstring | Inherited jstring

text \<open>
  The object \<open>parseFileChange\<close> returns. The record for a diff that is too large has
  only \<open>filename\<close>, \<open>language\<close>, \<open>changeType\<close>, \<open>diff\<close>, \<open>tooLarge\<close> and \<open>size\<close>; the
  full record has no \<open>size\<close>. A property that an object lacks is \<open>None\<close>.
\<close>

record parsed_file =
  pf_filename :: jstring
  pf_oldFilename :: "jstring option"
  pf_language :: js_lang
  pf_changeType :: jstring
  pf_diff :: jstring
  pf_additions :: "nat option"
  pf_deletions :: "nat option"
  pf_isNewFile :: "bool option"
  pf_isDeletedFile :: "bool option"
  pf_isRenamedFile :: "bool option"
  pf_tooLarge :: bool
  pf_size :: "nat option"

subsection \<open>Skip patterns\<close>

text \<open>
  \<open>new RegExp(source, 'i').test(subject)\<close> belongs to the JavaScript engine, not to this
  program: it is a parameter \<open>rx\<close> of the model, applied to the source and the subject.
  It returns \<open>Inl\<close> when the constructor throws on a source that is not a regular
  expression.
\<close>

type_synonym regex_test = "jstring \<Rightarrow> jstring \<Rightarrow> js_error + bool"

text \<open>\<open>s.replace(/c/g, r)\<close> for a single character \<open>c\<close>.\<close>

definition replace_all :: "nat \<Rightarrow> jstring \<Rightarrow> jstring \<Rightarrow> jstring" where
  "replace_all c r s = concat (map (\<lambda>x. if x = c then r else [x]) s)"

text \<open>\<open>xs.some(f)\<close>: stops at the first element for which \<open>f\<close> is true, or throws.\<close>

fun some_js :: "('a \<Rightarrow> js_error + bool) \<Rightarrow> 'a list \<Rightarrow> js_error + bool" where
  "some_js f [] = Inr False"
| "some_js f (x # xs) =
     (case f x of Inl e \<Rightarrow> Inl e | Inr b \<Rightarrow> if b then Inr True else some_js f xs)"

definition pattern_matches :: "regex_test \<Rightarrow> jstring \<Rightarrow> jstring \<Rightarrow> js_error + bool" where
  "pattern_matches rx filename pattern =
     (if str_includes pattern (S ''*'') then
        rx (replace_all 63 (S ''.'') (replace_all 42 (S ''.*'') pattern)) filename
      else Inr (filename = pattern \<or> endsWith filename pattern))"

definition shouldSkipFile :: "regex_test \<Rightarrow> config \<Rightarrow> jstring \<Rightarrow> js_error + bool" where
  "shouldSkipFile rx cfg filename = some_js (pattern_matches rx filename) (skipFiles cfg)"

subsection \<open>Language detection\<close>

text \<open>
  \<open>toLowerCase\<close> on the code units that matter for the table: the ASCII capitals and
  the Kelvin sign U+212A, the only other character whose lower case is an ASCII letter.
  Other code units are kept as they are.
\<close>

definition toLowerCase :: "jstring \<Rightarrow> jstring" where
  "toLowerCase s = map (\<lambda>c. if 65 \<le> c \<and> c \<le> 90 then c + 32 else if c = 8490 then 107 else c) s"

definition languageMap :: "(jstring \<times> jstring) list" where
  "languageMap =
     [(S ''js'', S ''javascript''), (S ''jsx'', S ''javascript''),
      (S ''ts'', S ''typescript''), (S ''tsx'', S ''typescript''),
      (S ''py'', S ''python''), (S ''java'', S ''java''), (S ''go'', S ''go''),
      (S ''rs'', S ''rust''), (S ''php'', S ''php''), (S ''rb'', S ''ruby''),
      (S ''cs'', S ''csharp''), (S ''cpp'', S ''cpp''), (S ''cc'', S ''cpp''),
      (S ''cxx'', S ''cpp''), (S ''c'', S ''c''), (S ''h'', S ''c''), (S ''hpp'', S ''cpp''),
      (S ''kt'', S ''kotlin''), (S ''swift'', S ''swift''), (S ''scala'', S ''scala''),
      (S ''dart'', S ''dart''), (S ''vue'', S ''javascript''), (S ''svelte'', S ''javascript''),
      (S ''html'', S ''html''), (S ''css'', S ''css''), (S ''scss'', S ''scss''),
      (S ''sass'', S ''sass''), (S ''less'', S ''less''), (S ''sql'', S ''sql''),
      (S ''sh'', S ''bash''), (S ''bash'', S ''bash''), (S ''zsh'', S ''bash''),
      (S ''ps1'', S ''powershell''), (S ''yaml'', S ''yaml''), (S ''yml'', S ''yaml''),
      (S ''json'', S ''json''), (S ''xml'', S ''xml''), (S ''md'', S ''markdown''),
      (S ''dockerfile'', S ''dockerfile'')]"

text \<open>\<open>filename.split('.').pop()\<close>: what follows the last dot, or the whole name.\<close>

definition last_segment :: "jstring \<Rightarrow> jstring" where
  "last_segment s = rev (takeWhile (\<lambda>c. c \<noteq> 46) (rev s))"

definition detectLanguage :: "jstring \<Rightarrow> js_lang" where
  "detectLanguage filename =
     (let extension = toLowerCase (last_segment filename) in
      case map_of languageMap extension of
        Some tag \<Rightarrow> Lang tag
      | None \<Rightarrow>
          if extension = S ''constructor'' \<or> extension = S ''__proto__'' then Inherited extension
          else Lang (S ''unknown''))"

definition isLanguageSupported :: "config \<Rightarrow> js_lang \<Rightarrow> bool" where
  "isLanguageSupported cfg language =
     (case language of Lang tag \<Rightarrow> tag \<in> set (supportedLanguages cfg) | Inherited x \<Rightarrow> False)"

definition getChangeType :: "change \<Rightarrow> jstring" where
  "getChangeType ch =
     (if new_file ch then S ''added''
      else if deleted_file ch then S ''deleted''
      else if renamed_file ch then S ''renamed''
      else S ''modified'')"

subsection \<open>Cleaning and counting\<close>

text \<open>The loop of \<open>cleanDiff\<close>; \<open>cleanedLines\<close> is the accumulator.\<close>

fun clean_loop :: "jstring list \<Rightarrow> jstring list \<Rightarrow> jstring list" where
  "clean_loop cleanedLines [] = cleanedLines"
| "clean_loop cleanedLines (ln # lns) =
     (if startsWith ln (S ''diff --git'') \<or> startsWith ln (S ''index '')
         \<or> startsWith ln (S ''+++'') \<or> startsWith ln (S ''---'')
      then clean_loop cleanedLines lns
      else if startsWith ln (S ''@@'') then clean_loop (cleanedLines @ [ln]) lns
      else if startsWith ln (S ''+'') \<or> startsWith ln (S ''-'') \<or> startsWith ln (S '' '')
      then clean_loop (cleanedLines @ [ln]) lns
      else clean_loop cleanedLines lns)"

definition cleanDiff :: "jstring \<Rightarrow> jstring" where
  "cleanDiff d =
     (if str_includes d (S ''Binary files differ'') then S ''// Binary file - cannot review content''
      else join [10] (clean_loop [] (split_nl d)))"

text \<open>
  \<open>countAdditions\<close> and \<open>countDeletions\<close> count the matches of \<open>/^\+(?!\+)/gm\<close> and
  \<open>/^-(?!-)/gm\<close>: the mark at the start of a line and not followed by the same mark. With
  the \<open>m\<close> flag a line starts at the beginning of the text and after LF, CR, U+2028 and
  U+2029.
\<close>

definition is_line_terminator :: "nat \<Rightarrow> bool" where
  "is_line_terminator c \<longleftrightarrow> c = 10 \<or> c = 13 \<or> c = 8232 \<or> c = 8233"

fun count_marks :: "nat \<Rightarrow> bool \<Rightarrow> jstring \<Rightarrow> nat" where
  "count_marks m atStart [] = 0"
| "count_marks m atStart (c # cs) =
     (if atStart \<and> c = m \<and> \<not> startsWith cs [m] then 1 else 0)
       + count_marks m (is_line_terminator c) cs"

definition countAdditions :: "jstring \<Rightarrow> nat" where
  "countAdditions d = count_marks 43 True d"

definition countDeletions :: "jstring \<Rightarrow> nat" where
  "countDeletions d = count_marks 45 True d"

subsection \<open>Parsing one change\<close>

definition parseFileChange :: "regex_test \<Rightarrow> config \<Rightarrow> change \<Rightarrow> js_error + parsed_file option" where
  "parseFileChange rx cfg ch =
     (case diff ch of
        None \<Rightarrow> Inr None
      | Some d \<Rightarrow>
          if d = [] \<or> trim d = [] then Inr None
          else (case shouldSkipFile rx cfg (new_path ch) of
              Inl e \<Rightarrow> Inl e
            | Inr skip \<Rightarrow>
                if skip then Inr None
                else if int (length d) > maxDiffSize cfg then
                  Inr (Some \<lparr>pf_filename = new_path ch, pf_oldFilename = None,
                     pf_language = detectLanguage (new_path ch), pf_changeType = getChangeType ch,
                     pf_diff = S ''// Diff too large for review'',
                     pf_additions = None, pf_deletions = None, pf_isNewFile = None,
                     pf_isDeletedFile = None, pf_isRenamedFile = None,
                     pf_tooLarge = True, pf_size = Some (length d)\<rparr>)
                else (let language = detectLanguage (new_path ch) in
                  if \<not> isLanguageSupported cfg language then Inr None
                  else Inr (Some \<lparr>pf_filename = new_path ch, pf_oldFilename = Some (old_path ch),
                     pf_language = language, pf_changeType = getChangeType ch,
                     pf_diff = cleanDiff d,
                     pf_additions = Some (countAdditions d), pf_deletions = Some (countDeletions d),
                     pf_isNewFile = Some (new_file ch), pf_isDeletedFile = Some (deleted_file ch),
                     pf_isRenamedFile = Some (renamed_file ch),
                     pf_tooLarge = False, pf_size = None\<rparr>))))"

text \<open>
  \<open>parseMergeRequestChanges\<close>: a change whose parsing throws is logged and left out, like
  one for which \<open>parseFileChange\<close> returns \<open>null\<close>.
\<close>

definition parseMergeRequestChanges :: "regex_test \<Rightarrow> config \<Rightarrow> change list \<Rightarrow> parsed_file list" where
  "parseMergeRequestChanges rx cfg changes =
     concat (map (\<lambda>ch. case parseFileChange rx cfg ch of
                          Inl e \<Rightarrow> [] | Inr None \<Rightarrow> [] | Inr (Some parsedFile) \<Rightarrow> [parsedFile]) changes)"

subsection \<open>Added lines and their numbers\<close>

text \<open>
  The hunk header is found with \<open>line.match(/@@ -\d+,?\d* \+(\d+),?\d* @@/)\<close>; the model
  returns the text of the capture group, \<open>None\<close> when there is no match. \<open>hunk_match_at\<close>
  matches the expression at the start of its argument, taking each run of digits as long
  as it is. That is what the backtracking matcher finds: a shorter choice for a run of
  digits leaves a digit where the expression needs a comma or a space, so it can only end
  at the same place as the longest one. \<open>hunk_match\<close> tries each start position from the
  left, as \<open>match\<close> does. \<open>\d\<close> is an ASCII digit.
\<close>

definition is_digit :: "nat \<Rightarrow> bool" where
  "is_digit c \<longleftrightarrow> 48 \<le> c \<and> c \<le> 57"

definition strip_prefix :: "jstring \<Rightarrow> jstring \<Rightarrow> jstring option" where
  "strip_prefix p s = (if startsWith s p then Some (drop (length p) s) else None)"

definition opt_comma :: "jstring \<Rightarrow> jstring" where
  "opt_comma s = (if startsWith s (S '','') then tl s else s)"

definition hunk_match_at :: "jstring \<Rightarrow> jstring option" where
  "hunk_match_at s =
     (case strip_prefix (S ''@@ -'') s of
        None \<Rightarrow> None
      | Some r1 \<Rightarrow>
          if takeWhile is_digit r1 = [] then None
          else (case strip_prefix (S '' +'') (dropWhile is_digit (opt_comma (dropWhile is_digit r1))) of
              None \<Rightarrow> None
            | Some r2 \<Rightarrow>
                if takeWhile is_digit r2 = [] then None
                else if startsWith (dropWhile is_digit (opt_comma (dropWhile is_digit r2))) (S '' @@'')
                then Some (takeWhile is_digit r2)
                else None))"

fun hunk_match :: "jstring \<Rightarrow> jstring option" where
  "hunk_match [] = hunk_match_at []"
| "hunk_match (c # cs) =
     (case hunk_match_at (c # cs) of Some m \<Rightarrow> Some m | None \<Rightarrow> hunk_match cs)"

text \<open>
  Adding a whole number to a JavaScript number: the double nearest to the exact sum;
  \<open>NaN\<close> and the infinities stay as they are.
\<close>

definition num_plus :: "js_number \<Rightarrow> int \<Rightarrow> js_number" where
  "num_plus x k =
     (case x of NaN \<Rightarrow> NaN | Num n \<Rightarrow> to_double (n + k)
      | PosInfinity \<Rightarrow> PosInfinity | NegInfinity \<Rightarrow> NegInfinity)"

record added_line =
  lineNumber :: js_number
  content :: jstring

text \<open>The variables of the loop of \<open>extractAddedLines\<close>, and its body.\<close>

record extract_state =
  addedLines :: "added_line list"
  currentLineNumber :: js_number
  inHunk :: bool

definition extract_step :: "extract_state \<Rightarrow> jstring \<Rightarrow> extract_state" where
  "extract_step st ln =
     (if startsWith ln (S ''@@'') then
        (case hunk_match ln of
           Some m \<Rightarrow> st\<lparr>currentLineNumber := num_plus (parseInt m) (- 1), inHunk := True\<rparr>
         | None \<Rightarrow> st)
      else if \<not> inHunk st then st
      else
        (let st1 =
           (if startsWith ln (S ''+'') \<and> \<not> startsWith ln (S ''+++'') then
              st\<lparr>addedLines := addedLines st @
                   [\<lparr>lineNumber = num_plus (currentLineNumber st) 1, content = drop 1 ln\<rparr>]\<rparr>
            else st)
         in if startsWith ln (S '' '') \<or> startsWith ln (S ''+'') then
              st1\<lparr>currentLineNumber := num_plus (currentLineNumber st1) 1\<rparr>
            else st1))"

definition extractAddedLines :: "jstring \<Rightarrow> added_line list" where
  "extractAddedLines d =
     addedLines (foldl extract_step
       \<lparr>addedLines = [], currentLineNumber = Num 0, inHunk = False\<rparr> (split_nl d))"

text \<open>
  A hunk as the specification describes it: the header \<open>@@ -a,b +c,d @@\<close>, with whatever
  text follows it on the line, and the lines of the hunk. A line is recorded when it
  starts with \<open>+\<close> but not with \<open>+++\<close>; the counter advances on a context line and on an
  addition line. The entry for a recorded line carries the number \<open>c\<close> plus the number of
  advancing lines before it in the hunk.
\<close>

record hunk =
  h_old_start :: nat
  h_old_count :: nat
  h_new_start :: nat
  h_new_count :: nat
  h_heading :: jstring
  h_body :: "jstring list"

definition hunk_header :: "hunk \<Rightarrow> jstring" where
  "hunk_header h =
     S ''@@ -'' @ show_nat (h_old_start h) @ S '','' @ show_nat (h_old_count h)
       @ S '' +'' @ show_nat (h_new_start h) @ S '','' @ show_nat (h_new_count h)
       @ S '' @@'' @ h_heading h"

definition hunk_lines :: "hunk \<Rightarrow> jstring list" where
  "hunk_lines h = hunk_header h # h_body h"

definition is_recorded :: "jstring \<Rightarrow> bool" where
  "is_recorded ln \<longleftrightarrow> startsWith ln (S ''+'') \<and> \<not> startsWith ln (S ''+++'')"

definition advances :: "jstring \<Rightarrow> bool" where
  "advances ln \<longleftrightarrow> startsWith ln (S '' '') \<or> startsWith ln (S ''+'')"

definition entries_from :: "int \<Rightarrow> jstring list \<Rightarrow> added_line list" where
  "entries_from c lns =
     concat (map (\<lambda>j. if is_recorded (lns ! j)
                        then [\<lparr>lineNumber = Num (c + int (length (filter advances (take j lns)))),
                               content = drop 1 (lns ! j)\<rparr>]
                        else [])
                 [0..<length lns])"

definition hunk_entries :: "hunk \<Rightarrow> added_line list" where
  "hunk_entries h = entries_from (int (h_new_start h)) (h_body h)"

text \<open>
  The numbers of a hunk stay below 2^53, and no line of the hunk starts another hunk.
\<close>

definition well_formed_hunk :: "hunk \<Rightarrow> bool" where
  "well_formed_hunk h \<longleftrightarrow>
     h_new_start h + length (h_body h) < 2 ^ 53
     \<and> list_all (\<lambda>ln. \<not> startsWith ln (S ''@@'')) (h_body h)"

section \<open>Reviewer: the loop over the files and the comment\<close>

record review_context =
  ctx_description :: "jstring option"
  commitMessages :: "jstring list"

text \<open>
  An entry of \<open>reviews\<close>. The loop builds three shapes of object: a review (filename,
  language, change type and the properties of the answer), a skipped file (\<open>skipped\<close>,
  \<open>reason\<close>) and a failed one (\<open>error\<close>, \<open>errorMessage\<close>); all three have \<open>issues\<close>. A
  property that an object lacks is \<open>None\<close>, or \<open>False\<close> for the two flags.
\<close>

record file_review =
  fr_filename :: jstring
  fr_language :: "js_lang option"
  fr_changeType :: "jstring option"
  fr_summary :: "jstring option"
  fr_issues :: "issue list option"
  fr_rawReview :: "jstring option"
  fr_skipped :: bool
  fr_reason :: "jstring option"
  fr_error :: bool
  fr_errorMessage :: "jstring option"

definition error_message :: "js_error \<Rightarrow> jstring" where
  "error_message e = (case e of Error m \<Rightarrow> m | SyntaxError m \<Rightarrow> m)"

text \<open>
  \<open>aiService.reviewCode\<close> calls a remote service. It is a parameter of the model: from the
  state \<open>'w\<close> of the world outside and the arguments of the call it gives the new state
  and either the parsed answer or the error it throws.
\<close>

type_synonym 'w ai_call =
  "'w \<Rightarrow> jstring \<Rightarrow> js_lang \<Rightarrow> jstring \<Rightarrow> review_context \<Rightarrow> (js_error + ai_review) \<times> 'w"

definition skipped_review :: "parsed_file \<Rightarrow> file_review" where
  "skipped_review file =
     \<lparr>fr_filename = pf_filename file, fr_language = None, fr_changeType = None, fr_summary = None,
      fr_issues = Some [], fr_rawReview = None, fr_skipped = True,
      fr_reason = Some (S ''File too large''), fr_error = False, fr_errorMessage = None\<rparr>"

definition normal_review :: "parsed_file \<Rightarrow> ai_review \<Rightarrow> file_review" where
  "normal_review file review =
     \<lparr>fr_filename = pf_filename file, fr_language = Some (pf_language file),
      fr_changeType = Some (pf_changeType file), fr_summary = Some (summary review),
      fr_issues = Some (issues review), fr_rawReview = Some (rawReview review), fr_skipped = False,
      fr_reason = None, fr_error = False, fr_errorMessage = None\<rparr>"

definition errored_review :: "parsed_file \<Rightarrow> js_error \<Rightarrow> file_review" where
  "errored_review file err =
     \<lparr>fr_filename = pf_filename file, fr_language = None, fr_changeType = None, fr_summary = None,
      fr_issues = Some [], fr_rawReview = None, fr_skipped = False,
      fr_reason = None, fr_error = True, fr_errorMessage = Some (error_message err)\<rparr>"

text \<open>
  The \<open>for\<close> loop of \<open>reviewMergeRequest\<close> with its \<open>try\<close> and \<open>catch\<close>; \<open>reviews\<close> is the
  accumulator. The delay after a successful call only waits.
\<close>

fun review_files ::
  "'w ai_call \<Rightarrow> review_context \<Rightarrow> file_review list \<Rightarrow> parsed_file list \<Rightarrow> 'w \<Rightarrow> file_review list \<times> 'w"
where
  "review_files reviewCode ctx reviews [] w = (reviews, w)"
| "review_files reviewCode ctx reviews (file # files) w =
     (if pf_tooLarge file then
        review_files reviewCode ctx (reviews @ [skipped_review file]) files w
      else (case reviewCode w (pf_filename file) (pf_language file) (pf_diff file) ctx of
          (Inr review, w') \<Rightarrow>
            review_files reviewCode ctx (reviews @ [normal_review file review]) files w'
        | (Inl err, w') \<Rightarrow>
            review_files reviewCode ctx (reviews @ [errored_review file err]) files w'))"

subsection \<open>The comment\<close>

text \<open>The pictographs of the template, as UTF-16 code units.\<close>

definition ROBOT :: jstring where "ROBOT = [55358, 56598]"
definition CHECK_MARK :: jstring where "CHECK_MARK = [9989]"
definition BAR_CHART :: jstring where "BAR_CHART = [55357, 56522]"
definition WARNING_SIGN :: jstring where "WARNING_SIGN = [9888, 65039]"
definition LOCK :: jstring where "LOCK = [55357, 56594]"
definition CROSS_MARK :: jstring where "CROSS_MARK = [10060]"
definition NEXT_TRACK :: jstring where "NEXT_TRACK = [9197, 65039]"
definition MEMO :: jstring where "MEMO = [55357, 56541]"
definition ROTATING_LIGHT :: jstring where "ROTATING_LIGHT = [55357, 57000]"
definition HIGH_VOLTAGE :: jstring where "HIGH_VOLTAGE = [9889]"
definition LIGHT_BULB :: jstring where "LIGHT_BULB = [55357, 56481]"

text \<open>A property in a template literal; a missing one prints as \<open>undefined\<close>.\<close>

definition show_opt :: "jstring option \<Rightarrow> jstring" where
  "show_opt x = (case x of None \<Rightarrow> S ''undefined'' | Some s \<Rightarrow> s)"

text \<open>
  \<open>issue.line\<close> in a template literal, and in \<open>if (issue.line)\<close>, where null, \<open>NaN\<close>
  and 0 are falsy.
\<close>

definition show_line :: "number_printer \<Rightarrow> js_number option \<Rightarrow> jstring" where
  "show_line pr l = (case l of None \<Rightarrow> S ''null'' | Some x \<Rightarrow> show_number pr x)"

definition line_truthy :: "js_number option \<Rightarrow> bool" where
  "line_truthy l =
     (case l of None \<Rightarrow> False | Some NaN \<Rightarrow> False | Some (Num n) \<Rightarrow> n \<noteq> 0
      | Some PosInfinity \<Rightarrow> True | Some NegInfinity \<Rightarrow> True)"

text \<open>
  \<open>toUpperCase\<close> on ASCII letters; other code units are kept (the provider names of the
  configuration are ASCII).
\<close>

definition toUpperCase :: "jstring \<Rightarrow> jstring" where
  "toUpperCase s = map (\<lambda>c. if 97 \<le> c \<and> c \<le> 122 then c - 32 else c) s"

text \<open>The body of the innermost loop: what one issue adds to \<open>comment\<close>.\<close>

definition issue_text :: "number_printer \<Rightarrow> jstring \<Rightarrow> issue \<Rightarrow> jstring" where
  "issue_text pr comment i =
     (let c1 = comment @ S ''**'' @ itype i @ S ''**'';
          c2 = (if line_truthy (line i) then c1 @ S '' (Line '' @ show_line pr (line i) @ S '')'' else c1);
          c3 = c2 @ [10];
          c4 = c3 @ description i @ [10, 10];
          c5 = (if suggestion i \<noteq> [] then c4 @ S ''*Suggestion:* '' @ suggestion i @ [10, 10] else c4)
      in if example i \<noteq> [] then
           c5 @ S ''*Example:*'' @ [10] @ S ''```'' @ [10] @ example i @ [10] @ S ''```'' @ [10, 10]
         else c5)"

definition severityIcon :: "(jstring \<times> jstring) list" where
  "severityIcon =
     [(S ''CRITICAL'', ROTATING_LIGHT), (S ''HIGH'', WARNING_SIGN),
      (S ''MEDIUM'', HIGH_VOLTAGE), (S ''LOW'', LIGHT_BULB)]"

text \<open>The body of the loop over \<open>Object.entries(issuesBySeverity)\<close>.\<close>

definition severity_group :: "number_printer \<Rightarrow> jstring \<Rightarrow> jstring \<times> issue list \<Rightarrow> jstring" where
  "severity_group pr comment entry =
     (let sev = fst entry; iss = snd entry in
      if iss = [] then comment
      else foldl (issue_text pr)
             (comment @ S ''#### '' @ show_opt (map_of severityIcon sev) @ S '' '' @ sev
                @ S '' Issues'' @ [10, 10])
             iss)"

text \<open>
  \<open>issuesBySeverity\<close>: an object with four string keys, which \<open>Object.entries\<close> lists in the
  order they are written.
\<close>

definition issuesBySeverity :: "issue list \<Rightarrow> (jstring \<times> issue list) list" where
  "issuesBySeverity is =
     [(S ''CRITICAL'', filter (\<lambda>i. severity i = S ''CRITICAL'') is),
      (S ''HIGH'', filter (\<lambda>i. severity i = S ''HIGH'') is),
      (S ''MEDIUM'', filter (\<lambda>i. severity i = S ''MEDIUM'') is),
      (S ''LOW'', filter (\<lambda>i. severity i = S ''LOW'') is)]"

text \<open>The body of the loop over \<open>reviews\<close>.\<close>

definition review_text :: "number_printer \<Rightarrow> jstring \<Rightarrow> file_review \<Rightarrow> jstring" where
  "review_text pr comment review =
     (if fr_error review then
        comment @ S ''### '' @ CROSS_MARK @ S '' '' @ fr_filename review @ [10]
          @ S ''*Error during review: '' @ show_opt (fr_errorMessage review) @ S ''*'' @ [10, 10]
      else if fr_skipped review then
        comment @ S ''### '' @ NEXT_TRACK @ S '' '' @ fr_filename review @ [10]
          @ S ''*Skipped: '' @ show_opt (fr_reason review) @ S ''*'' @ [10, 10]
      else if (case fr_issues review of None \<Rightarrow> True | Some is \<Rightarrow> is = []) then
        comment @ S ''### '' @ CHECK_MARK @ S '' '' @ fr_filename review @ [10]
          @ S ''*No issues found*'' @ [10, 10]
      else
        (case fr_issues review of
           None \<Rightarrow> comment
         | Some is \<Rightarrow>
             foldl (severity_group pr)
               (comment @ S ''### '' @ MEMO @ S '' '' @ fr_filename review @ [10]
                  @ S ''*'' @ show_nat (length is) @ S '' issue(s) found*'' @ [10, 10])
               (issuesBySeverity is)))"

text \<open>
  The three \<open>reduce\<close> calls; a review without \<open>issues\<close> counts for 0. An array has
  fewer than 2^32 elements and no run holds 2^53 issues, so these sums of lengths are exact
  and are kept as natural numbers.
\<close>

definition totalIssues :: "file_review list \<Rightarrow> nat" where
  "totalIssues reviews =
     foldl (\<lambda>sum review. sum + (case fr_issues review of None \<Rightarrow> 0 | Some is \<Rightarrow> length is)) 0 reviews"

definition criticalIssues :: "file_review list \<Rightarrow> nat" where
  "criticalIssues reviews =
     foldl (\<lambda>sum review. sum + (case fr_issues review of None \<Rightarrow> 0
        | Some is \<Rightarrow> length (filter (\<lambda>i. severity i = S ''CRITICAL'') is))) 0 reviews"

definition securityIssues :: "file_review list \<Rightarrow> nat" where
  "securityIssues reviews =
     foldl (\<lambda>sum review. sum + (case fr_issues review of None \<Rightarrow> 0
        | Some is \<Rightarrow> length (filter (\<lambda>i. itype i = S ''SECURITY'') is))) 0 reviews"

text \<open>
  \<open>generateReviewComment\<close>. \<open>now\<close> is the text of \<open>new Date().toISOString()\<close>, \<open>pr\<close> the
  engine's printing of numbers from 2^53 on. The file
  statistics that the function computes first are not used in the comment.
\<close>

definition generateReviewComment ::
  "number_printer \<Rightarrow> config \<Rightarrow> jstring \<Rightarrow> file_review list \<Rightarrow> jstring" where
  "generateReviewComment pr cfg now reviews =
     (let c0 = S ''## '' @ ROBOT @ S '' AI Code Review'' @ [10, 10];
          c1 = (if totalIssues reviews = 0 then
                  c0 @ CHECK_MARK @ S '' **Great work!** No issues found in this merge request.'' @ [10, 10]
                else
                  (let s0 = c0 @ BAR_CHART @ S '' **Review Summary:**'' @ [10];
                       s1 = s0 @ S ''- **Files Reviewed:** '' @ show_nat (length reviews) @ [10];
                       s2 = s1 @ S ''- **Total Issues:** '' @ show_nat (totalIssues reviews) @ [10];
                       s3 = (if criticalIssues reviews > 0 then
                               s2 @ S ''- **Critical Issues:** '' @ WARNING_SIGN @ S '' ''
                                 @ show_nat (criticalIssues reviews) @ [10]
                             else s2);
                       s4 = (if securityIssues reviews > 0 then
                               s3 @ S ''- **Security Issues:** '' @ LOCK @ S '' ''
                                 @ show_nat (securityIssues reviews) @ [10]
                             else s3)
                   in s4 @ [10]));
          c2 = foldl (review_text pr) c1 reviews;
          c3 = c2 @ S ''---'' @ [10];
          c4 = c3 @ S ''*Review generated by GitLab AI Reviewer at '' @ now @ S ''*'' @ [10]
      in c4 @ S ''*Powered by '' @ toUpperCase (provider cfg) @ S '' '' @ openai_model cfg @ S ''*'')"

text \<open>
  The place of a severity in the order of the comment, CRITICAL first; any other text
  comes last.
\<close>

definition severity_rank :: "jstring \<Rightarrow> nat" where
  "severity_rank s =
     (if s = S ''CRITICAL'' then 0 else if s = S ''HIGH'' then 1
      else if s = S ''MEDIUM'' then 2 else if s = S ''LOW'' then 3 else 4)"

section \<open>Facts about strings\<close>

lemma startsWith_prefix: "startsWith s p \<longleftrightarrow> prefix p s"
  by (induction s p rule: startsWith.induct) auto

lemma startsWith_append [simp]: "startsWith (p @ s) p"
  by (simp add: startsWith_prefix)

lemma startsWith_Nil_iff [simp]: "startsWith [] p \<longleftrightarrow> p = []"
  by (cases p) auto

lemma trim_Nil [simp]: "trim [] = []"
  by (simp add: trim_def)

lemma trim_tight:
  assumes "s \<noteq> []" "\<not> is_ws (hd s)" "\<not> is_ws (last s)"
  shows "trim s = s"
proof -
  from assms have a: "dropWhile is_ws s = s" by (cases s) auto
  from assms have "rev s \<noteq> []" "\<not> is_ws (hd (rev s))" by (simp_all add: hd_rev)
  then have "dropWhile is_ws (rev s) = rev s" by (cases "rev s") auto
  with a show ?thesis by (simp add: trim_def)
qed

lemma trim_result_tight:
  assumes "trim s \<noteq> []"
  shows "\<not> is_ws (hd (trim s)) \<and> \<not> is_ws (last (trim s))"
proof -
  let ?r = "dropWhile is_ws (rev (dropWhile is_ws s))"
  from assms have ne: "?r \<noteq> []" by (simp add: trim_def)
  then have h: "\<not> is_ws (hd ?r)" by (rule hd_dropWhile)
  have l: "last (trim s) = hd ?r" using ne by (simp add: trim_def last_rev)
  from ne obtain k where k: "?r = drop k (rev (dropWhile is_ws s))" "k < length (rev (dropWhile is_ws s))"
    by (metis dropWhile_eq_drop drop_all linorder_not_less)
  have "hd (trim s) = last ?r" using ne by (simp add: trim_def hd_rev)
  also have "\<dots> = last (rev (dropWhile is_ws s))" using k by simp
  also have "\<dots> = hd (dropWhile is_ws s)" 
    using ne by (metis last_rev)
  finally have "hd (trim s) = hd (dropWhile is_ws s)" .
  moreover have "dropWhile is_ws s \<noteq> []" using ne by (metis dropWhile.simps(1) rev.simps(1))
  ultimately have "\<not> is_ws (hd (trim s))" using hd_dropWhile [of is_ws s] by simp
  with h l show ?thesis by simp
qed

lemma trim_idem [simp]: "trim (trim s) = trim s"
proof (cases "trim s = []")
  case True then show ?thesis by simp
next
  case False
  with trim_result_tight [OF False] show ?thesis by (simp add: trim_tight)
qed

lemma trimmed_tight: "trim s = s \<Longrightarrow> s \<noteq> [] \<Longrightarrow> \<not> is_ws (hd s) \<and> \<not> is_ws (last s)"
  using trim_result_tight [of s] by simp

lemma join_Cons: "join sep (x # xs) = (if xs = [] then x else x @ sep @ join sep xs)"
  by (cases xs) auto

lemma join_tight:
  assumes "xs \<noteq> []" "\<forall>x\<in>set xs. x \<noteq> [] \<and> \<not> is_ws (hd x) \<and> \<not> is_ws (last x)"
  shows "join sep xs \<noteq> [] \<and> hd (join sep xs) = hd (hd xs) \<and> last (join sep xs) = last (last xs)"
  using assms
proof (induction xs)
  case Nil then show ?case by simp
next
  case (Cons x xs)
  show ?case
  proof (cases "xs = []")
    case True with Cons.prems show ?thesis by simp
  next
    case False
    with Cons have ih: "join sep xs \<noteq> []" "last (join sep xs) = last (last xs)" by auto
    from Cons.prems have "x \<noteq> []" by simp
    with False ih show ?thesis by (simp add: join_Cons)
  qed
qed

lemma trim_join_tight:
  assumes "\<forall>x\<in>set xs. x \<noteq> [] \<and> \<not> is_ws (hd x) \<and> \<not> is_ws (last x)"
  shows "trim (join sep xs) = join sep xs"
proof (cases "xs = []")
  case True then show ?thesis by simp
next
  case False
  from join_tight [OF False assms, of sep]
  have j: "join sep xs \<noteq> []" "hd (join sep xs) = hd (hd xs)" "last (join sep xs) = last (last xs)"
    by simp_all
  from False assms have "\<not> is_ws (hd (hd xs))" "\<not> is_ws (last (last xs))"
    by simp_all
  with j show ?thesis by (simp add: trim_tight)
qed

section \<open>Facts about numbers\<close>

lemma to_double_exact: "\<bar>i\<bar> < 2 ^ 53 \<Longrightarrow> to_double i = Num i"
proof -
  assume a: "\<bar>i\<bar> < 2 ^ 53"
  then have "nat \<bar>i\<bar> < 2 ^ 53" by simp
  then have r: "round_to_double (nat \<bar>i\<bar>) = nat \<bar>i\<bar>" by (simp add: round_to_double_def)
  have "(2::nat) ^ 53 \<le> 2 ^ 1024" by (rule power_increasing) simp_all
  with \<open>nat \<bar>i\<bar> < 2 ^ 53\<close> have "\<not> nat \<bar>i\<bar> \<ge> 2 ^ 1024" by linarith
  with r show ?thesis by (simp add: to_double_def Let_def)
qed

lemma num_plus_exact: "\<bar>n + k\<bar> < 2 ^ 53 \<Longrightarrow> num_plus (Num n) k = Num (n + k)"
  by (simp add: num_plus_def to_double_exact)

lemma show_nat_digits: "\<forall>c\<in>set (show_nat n). 48 \<le> c \<and> c \<le> 57"
proof (induction n rule: show_nat.induct)
  case (1 n)
  show ?case
  proof (cases "n < 10")
    case True
    then show ?thesis by (subst show_nat.simps) simp
  next
    case False
    have "n mod 10 < 10" by simp
    then have "48 + n mod 10 \<le> 57" by linarith
    with False 1 show ?thesis by (subst show_nat.simps) simp
  qed
qed

lemma show_nat_not_Nil [simp]: "show_nat n \<noteq> []"
  by (subst show_nat.simps) simp

lemma digits_value_snoc:
  "digits_value R (ds @ [c]) = digits_value R ds * R + (case digit_val c of None \<Rightarrow> 0 | Some v \<Rightarrow> v)"
  by (simp add: digits_value_def)

lemma digit_val_decimal: "d < 10 \<Longrightarrow> digit_val (48 + d) = Some d"
  by (simp add: digit_val_def)

lemma digits_value_show_nat: "digits_value 10 (show_nat n) = n"
proof (induction n rule: show_nat.induct)
  case (1 n)
  show ?case
  proof (cases "n < 10")
    case True
    then show ?thesis
      by (subst show_nat.simps) (simp add: digits_value_def digit_val_decimal)
  next
    case False
    with 1 have ih: "digits_value 10 (show_nat (n div 10)) = n div 10" by simp
    have "digit_val (48 + n mod 10) = Some (n mod 10)" by (simp add: digit_val_decimal)
    with False ih show ?thesis
      by (subst show_nat.simps) (simp add: digits_value_snoc)
  qed
qed

lemma decimal_is_radix_digit: "48 \<le> c \<and> c \<le> 57 \<Longrightarrow> is_radix_digit 10 c"
  unfolding is_radix_digit_def digit_val_def by (simp split: if_splits) arith

lemma decimal_not_ws: "48 \<le> c \<and> c \<le> 57 \<Longrightarrow> \<not> is_ws c"
  by (simp add: is_ws_def)

lemma parseInt_digits:
  assumes "ds \<noteq> []" "\<forall>c\<in>set ds. 48 \<le> c \<and> c \<le> 57"
  shows "parseInt ds = to_double (int (digits_value 10 ds))"
proof -
  from assms obtain c cs where ds: "ds = c # cs" by (cases ds) auto
  with assms have c: "48 \<le> c \<and> c \<le> 57" by simp
  then have ws: "dropWhile is_ws ds = ds" by (simp add: ds decimal_not_ws)
  from c have sign: "\<not> startsWith ds [45]" "\<not> startsWith ds [43]" by (auto simp: ds)
  have "\<not> startsWith ds [48, x]" if "x = 120 \<or> x = 88" for x
  proof (cases cs)
    case Nil then show ?thesis by (simp add: ds)
  next
    case (Cons d es)
    with assms ds have "48 \<le> d \<and> d \<le> 57" by simp
    with that Cons show ?thesis by (auto simp: ds)
  qed
  then have hex: "\<not> startsWith ds (S ''0x'')" "\<not> startsWith ds (S ''0X'')" by (simp_all add: S_def)
  have Z: "takeWhile (is_radix_digit 10) ds = ds"
    using assms by (simp add: decimal_is_radix_digit)
  show ?thesis
    unfolding parseInt_def Let_def ws using sign hex assms(1) by (simp add: Z)
qed

lemma parseInt_show_nat: "n < 2 ^ 53 \<Longrightarrow> parseInt (show_nat n) = Num (int n)"
  using parseInt_digits [OF show_nat_not_Nil show_nat_digits, of n]
  by (simp add: digits_value_show_nat to_double_exact)

lemma show_nat_tight:
  "\<not> is_ws (hd (show_nat n)) \<and> \<not> is_ws (last (show_nat n))"
  using show_nat_digits [of n] show_nat_not_Nil [of n]
  by (metis decimal_not_ws hd_in_set last_in_set)

lemma trim_show_nat [simp]: "trim (show_nat n) = show_nat n"
  using show_nat_tight [of n] by (simp add: trim_tight)

lemma show_nat_no_nl: "10 \<notin> set (show_nat n)"
  using show_nat_digits [of n] by auto

lemma show_nat_not_NA: "show_nat n \<noteq> S ''N/A''"
proof
  assume "show_nat n = S ''N/A''"
  then have "78 \<in> set (show_nat n)" by (simp add: S_def)
  with show_nat_digits [of n] show False by auto
qed

section \<open>Properties of \<open>parseReview\<close>\<close>

lemma parse_line_marker:
  "is_issue_marker ln \<Longrightarrow> parse_line (iss, cur) ln =
     ((case cur of None \<Rightarrow> iss | Some c \<Rightarrow> iss @ [c]), Some (new_issue (trim ln)))"
  by (simp add: parse_line_def is_issue_marker_def)

lemma parse_line_other_None:
  "\<not> is_issue_marker ln \<Longrightarrow> parse_line (iss, None) ln = (iss, None)"
  by (simp add: parse_line_def is_issue_marker_def)

lemma parse_line_other_Some:
  "\<not> is_issue_marker ln \<Longrightarrow> parse_line (iss, Some c) ln = (iss, Some (assign_field c (trim ln)))"
  by (simp add: parse_line_def is_issue_marker_def)

lemma itype_assign_field [simp]: "itype (assign_field c t) = itype c"
  by (simp add: assign_field_def Let_def)

lemma itype_new_issue [simp]: "itype (new_issue t) = extractValue t"
  by (simp add: new_issue_def)

lemma parse_lines_Cons: "parse_lines st (ln # lns) = parse_lines (parse_line st ln) lns"
  by (simp add: parse_lines_def)

lemma parse_lines_types:
  "map itype (parse_lines (iss, cur) lns) =
     map itype iss @ (case cur of None \<Rightarrow> [] | Some c \<Rightarrow> [itype c])
       @ map (\<lambda>ln. extractValue (trim ln)) (filter is_issue_marker lns)"
proof (induction lns arbitrary: iss cur)
  case Nil
  show ?case by (simp add: parse_lines_def split: option.splits)
next
  case (Cons ln lns)
  show ?case
  proof (cases "is_issue_marker ln")
    case True
    then show ?thesis
      by (simp add: parse_lines_Cons parse_line_marker Cons.IH split: option.splits)
  next
    case False
    show ?thesis
    proof (cases cur)
      case None
      with False show ?thesis
        by (simp add: parse_lines_Cons parse_line_other_None Cons.IH)
    next
      case (Some c)
      with False show ?thesis
        by (simp add: parse_lines_Cons parse_line_other_Some Cons.IH)
    qed
  qed
qed

lemma summary_loop_eq:
  "summary_loop acc lns =
     acc @ filter (\<lambda>t. t \<noteq> []) (takeWhile (\<lambda>t. \<not> startsWith t (S ''- **'')) (map trim lns))"
proof (induction lns arbitrary: acc)
  case Nil show ?case by simp
next
  case (Cons ln lns)
  have ne: "S ''- **'' \<noteq> []" by (simp add: S_def)
  show ?case
  proof (cases "startsWith (trim ln) (S ''- **'')")
    case True
    then have "trim ln \<noteq> []" using ne by auto
    with True show ?thesis by simp
  next
    case False
    with ne show ?thesis by (simp add: Cons.IH Let_def)
  qed
qed

lemma parse_lines_Nil: "parse_lines (iss, cur) [] = iss @ (case cur of None \<Rightarrow> [] | Some c \<Rightarrow> [c])"
  by (simp add: parse_lines_def split: option.splits)

lemma parse_lines_acc: "parse_lines (iss, cur) lns = iss @ parse_lines ([], cur) lns"
proof (induction lns arbitrary: iss cur)
  case Nil show ?case by (simp add: parse_lines_Nil)
next
  case (Cons ln lns)
  show ?case
  proof (cases "is_issue_marker ln")
    case True
    show ?thesis
    proof (cases cur)
      case None
      with True show ?thesis
        by (simp add: parse_lines_Cons parse_line_marker Cons.IH [symmetric])
    next
      case (Some c)
      with True show ?thesis
        using Cons.IH [of "iss @ [c]" "Some (new_issue (trim ln))"]
              Cons.IH [of "[c]" "Some (new_issue (trim ln))"]
        by (simp add: parse_lines_Cons parse_line_marker)
    qed
  next
    case False
    then show ?thesis
      by (cases cur) (simp_all add: parse_lines_Cons parse_line_other_None parse_line_other_Some Cons.IH [symmetric])
  qed
qed

lemma parse_lines_marker_Cons:
  "is_issue_marker m \<Longrightarrow> parse_lines (iss, cur) (m # r) =
     iss @ (case cur of None \<Rightarrow> [] | Some c \<Rightarrow> [c]) @ parse_lines ([], Some (new_issue (trim m))) r"
  using parse_lines_acc [of "case cur of None \<Rightarrow> iss | Some c \<Rightarrow> iss @ [c]" "Some (new_issue (trim m))" r]
  by (simp add: parse_lines_Cons parse_line_marker split: option.splits)


lemma parse_lines_body:
  "\<forall>ln\<in>set body. \<not> is_issue_marker ln \<Longrightarrow> rest = [] \<or> is_issue_marker (hd rest) \<Longrightarrow>
     parse_lines ([], Some c) (body @ rest) =
       foldl (\<lambda>c ln. assign_field c (trim ln)) c body # parse_lines ([], None) rest"
proof (induction body arbitrary: c)
  case Nil
  show ?case
  proof (cases rest)
    case Nil then show ?thesis by (simp add: parse_lines_Nil)
  next
    case (Cons m r)
    with Nil.prems have "is_issue_marker m" by simp
    with Cons show ?thesis by (simp add: parse_lines_marker_Cons)
  qed
next
  case (Cons ln body)
  then show ?case by (simp add: parse_lines_Cons parse_line_other_Some)
qed

lemma parse_lines_span:
  assumes "is_issue_marker m" "\<forall>ln\<in>set body. \<not> is_issue_marker ln" "rest = [] \<or> is_issue_marker (hd rest)"
  shows "parse_lines ([], None) (m # body @ rest) =
       foldl (\<lambda>c ln. assign_field c (trim ln)) (new_issue (trim m)) body # parse_lines ([], None) rest"
  using assms by (simp add: parse_lines_marker_Cons parse_lines_body)













lemma split_nl_not_Nil [simp]: "split_nl s \<noteq> []"
  by (induction s) (auto split: list.splits)

lemma split_nl_no_nl: "10 \<notin> set s \<Longrightarrow> split_nl s = [s]"
  by (induction s) auto

lemma split_nl_append_nl:
  "10 \<notin> set x \<Longrightarrow> split_nl (x @ 10 # r) = x # split_nl r"
  by (induction x) (auto split: list.splits)

lemma split_nl_join:
  assumes "ls \<noteq> []" "\<forall>l\<in>set ls. 10 \<notin> set l"
  shows "split_nl (join [10] ls) = ls"
  using assms
proof (induction ls)
  case Nil then show ?case by simp
next
  case (Cons l ls)
  show ?case
  proof (cases "ls = []")
    case True with Cons.prems show ?thesis by (simp add: split_nl_no_nl)
  next
    case False
    with Cons show ?thesis by (simp add: join_Cons split_nl_append_nl)
  qed
qed

lemma trim_space_Cons [simp]: "trim (32 # v) = trim v"
  by (simp add: trim_def is_ws_def)

lemma trim_marker_value:
  assumes "M \<noteq> []" "\<not> is_ws (hd M)" "\<not> is_ws (last M)" "trim v = v"
  shows "trim (M @ 32 # v) = M @ (if v = [] then [] else 32 # v)"
proof (cases "v = []")
  case True
  from assms have a: "dropWhile is_ws (M @ [32]) = M @ [32]" by (cases M) auto
  have "is_ws 32" by (simp add: is_ws_def)
  moreover from assms have "dropWhile is_ws (rev M) = rev M"
    by (cases "rev M") (auto simp: hd_rev)
  ultimately show ?thesis using True a by (simp add: trim_def)
next
  case False
  with assms trimmed_tight [of v] have "\<not> is_ws (last v)" by simp
  with False assms have "trim (M @ 32 # v) = M @ 32 # v"
    by (intro trim_tight) simp_all
  with False show ?thesis by simp
qed

lemma extractValue_colon:
  "58 \<notin> set M0 \<Longrightarrow> extractValue (M0 @ 58 # r) = trim r"
proof -
  assume "58 \<notin> set M0"
  then have "dropWhile (\<lambda>c. c \<noteq> 58) (M0 @ 58 # r) = 58 # r"
    by (induction M0) auto
  then show ?thesis by (simp add: extractValue_def)
qed

lemma extractValue_field:
  assumes "58 \<notin> set M0" "trim v = v"
  shows "extractValue (M0 @ [58] @ (if v = [] then [] else 32 # v)) = v"
  using assms by (simp add: extractValue_colon)

lemma not_startsWith_other:
  assumes "\<not> prefix M M'" "\<not> prefix M' M"
  shows "\<not> startsWith (M @ x) M'"
  using assms by (auto simp: startsWith_prefix prefix_append)

lemma marker_line:
  assumes "58 \<notin> set M0" "M0 \<noteq> []" "\<not> is_ws (hd M0)" "trim v = v"
  shows "\<exists>x. trim (M0 @ 58 # 32 # v) = M0 @ 58 # x \<and> extractValue (M0 @ 58 # x) = v"
proof -
  have "\<not> is_ws 58" by (simp add: is_ws_def)
  with assms have "trim ((M0 @ [58]) @ 32 # v) = (M0 @ [58]) @ (if v = [] then [] else 32 # v)"
    by (intro trim_marker_value) simp_all
  then have "trim (M0 @ 58 # 32 # v) = M0 @ 58 # (if v = [] then [] else 32 # v)" by simp
  moreover have "extractValue (M0 @ 58 # (if v = [] then [] else 32 # v)) = v"
    using assms by (simp add: extractValue_colon)
  ultimately show ?thesis by blast
qed

lemma markers_distinct:
  "\<not> startsWith (S ''- **Severity**:'' @ x) (S ''- **Issue Type**:'')"
  "\<not> startsWith (S ''- **Line**:'' @ x) (S ''- **Issue Type**:'')"
  "\<not> startsWith (S ''- **Line**:'' @ x) (S ''- **Severity**:'')"
  "\<not> startsWith (S ''- **Description**:'' @ x) (S ''- **Issue Type**:'')"
  "\<not> startsWith (S ''- **Description**:'' @ x) (S ''- **Severity**:'')"
  "\<not> startsWith (S ''- **Description**:'' @ x) (S ''- **Line**:'')"
  "\<not> startsWith (S ''- **Suggestion**:'' @ x) (S ''- **Issue Type**:'')"
  "\<not> startsWith (S ''- **Suggestion**:'' @ x) (S ''- **Severity**:'')"
  "\<not> startsWith (S ''- **Suggestion**:'' @ x) (S ''- **Line**:'')"
  "\<not> startsWith (S ''- **Suggestion**:'' @ x) (S ''- **Description**:'')"
  "\<not> startsWith (S ''- **Example**:'' @ x) (S ''- **Issue Type**:'')"
  "\<not> startsWith (S ''- **Example**:'' @ x) (S ''- **Severity**:'')"
  "\<not> startsWith (S ''- **Example**:'' @ x) (S ''- **Line**:'')"
  "\<not> startsWith (S ''- **Example**:'' @ x) (S ''- **Description**:'')"
  "\<not> startsWith (S ''- **Example**:'' @ x) (S ''- **Suggestion**:'')"
  by (rule not_startsWith_other; simp add: S_def)+


lemma field_line:
  assumes "L = M0 @ 58 # 32 # v" "M = M0 @ [58]" "58 \<notin> set M0" "M0 \<noteq> []" "\<not> is_ws (hd M0)"
    and "trim v = v"
  shows "\<exists>x. trim L = M @ x \<and> extractValue (M @ x) = v"
  using marker_line [OF assms(3-6)] assms(1,2) by auto

lemma issue_type_line:
  assumes "trim v = v"
  shows "is_issue_marker (S ''- **Issue Type**: '' @ v)"
    and "new_issue (trim (S ''- **Issue Type**: '' @ v)) =
      \<lparr>itype = v, severity = S ''MEDIUM'', line = None, description = [], suggestion = [], example = []\<rparr>"
proof -
  have "\<exists>x. trim (S ''- **Issue Type**: '' @ v) = S ''- **Issue Type**:'' @ x
      \<and> extractValue (S ''- **Issue Type**:'' @ x) = v"
    by (rule field_line [where ?M0.0 = "S ''- **Issue Type**''"]) (simp_all add: S_def is_ws_def assms)
  then obtain x where x: "trim (S ''- **Issue Type**: '' @ v) = S ''- **Issue Type**:'' @ x"
      "extractValue (S ''- **Issue Type**:'' @ x) = v"
    by blast
  show "is_issue_marker (S ''- **Issue Type**: '' @ v)" by (simp add: is_issue_marker_def x)
  show "new_issue (trim (S ''- **Issue Type**: '' @ v)) =
      \<lparr>itype = v, severity = S ''MEDIUM'', line = None, description = [], suggestion = [], example = []\<rparr>"
    by (simp add: new_issue_def x)
qed

lemma severity_line:
  assumes "trim v = v"
  shows "\<not> is_issue_marker (S ''- **Severity**: '' @ v)"
    and "assign_field c (trim (S ''- **Severity**: '' @ v)) = c\<lparr>severity := v\<rparr>"
proof -
  have "\<exists>x. trim (S ''- **Severity**: '' @ v) = S ''- **Severity**:'' @ x
      \<and> extractValue (S ''- **Severity**:'' @ x) = v"
    by (rule field_line [where ?M0.0 = "S ''- **Severity**''"]) (simp_all add: S_def is_ws_def assms)
  then obtain x where x: "trim (S ''- **Severity**: '' @ v) = S ''- **Severity**:'' @ x"
      "extractValue (S ''- **Severity**:'' @ x) = v"
    by blast
  show "\<not> is_issue_marker (S ''- **Severity**: '' @ v)"
    by (simp add: is_issue_marker_def x markers_distinct)
  show "assign_field c (trim (S ''- **Severity**: '' @ v)) = c\<lparr>severity := v\<rparr>"
    by (simp add: assign_field_def x markers_distinct)
qed

lemma line_line:
  assumes "trim v = v"
  shows "\<not> is_issue_marker (S ''- **Line**: '' @ v)"
    and "assign_field c (trim (S ''- **Line**: '' @ v)) =
       c\<lparr>line := (if v \<noteq> S ''N/A'' then Some (parseInt v) else None)\<rparr>"
proof -
  have "\<exists>x. trim (S ''- **Line**: '' @ v) = S ''- **Line**:'' @ x
      \<and> extractValue (S ''- **Line**:'' @ x) = v"
    by (rule field_line [where ?M0.0 = "S ''- **Line**''"]) (simp_all add: S_def is_ws_def assms)
  then obtain x where x: "trim (S ''- **Line**: '' @ v) = S ''- **Line**:'' @ x"
      "extractValue (S ''- **Line**:'' @ x) = v"
    by blast
  show "\<not> is_issue_marker (S ''- **Line**: '' @ v)"
    by (simp add: is_issue_marker_def x markers_distinct)
  show "assign_field c (trim (S ''- **Line**: '' @ v)) =
       c\<lparr>line := (if v \<noteq> S ''N/A'' then Some (parseInt v) else None)\<rparr>"
    by (simp add: assign_field_def x markers_distinct Let_def)
qed

lemma description_line:
  assumes "trim v = v"
  shows "\<not> is_issue_marker (S ''- **Description**: '' @ v)"
    and "assign_field c (trim (S ''- **Description**: '' @ v)) = c\<lparr>description := v\<rparr>"
proof -
  have "\<exists>x. trim (S ''- **Description**: '' @ v) = S ''- **Description**:'' @ x
      \<and> extractValue (S ''- **Description**:'' @ x) = v"
    by (rule field_line [where ?M0.0 = "S ''- **Description**''"]) (simp_all add: S_def is_ws_def assms)
  then obtain x where x: "trim (S ''- **Description**: '' @ v) = S ''- **Description**:'' @ x"
      "extractValue (S ''- **Description**:'' @ x) = v"
    by blast
  show "\<not> is_issue_marker (S ''- **Description**: '' @ v)"
    by (simp add: is_issue_marker_def x markers_distinct)
  show "assign_field c (trim (S ''- **Description**: '' @ v)) = c\<lparr>description := v\<rparr>"
    by (simp add: assign_field_def x markers_distinct)
qed

lemma suggestion_line:
  assumes "trim v = v"
  shows "\<not> is_issue_marker (S ''- **Suggestion**: '' @ v)"
    and "assign_field c (trim (S ''- **Suggestion**: '' @ v)) = c\<lparr>suggestion := v\<rparr>"
proof -
  have "\<exists>x. trim (S ''- **Suggestion**: '' @ v) = S ''- **Suggestion**:'' @ x
      \<and> extractValue (S ''- **Suggestion**:'' @ x) = v"
    by (rule field_line [where ?M0.0 = "S ''- **Suggestion**''"]) (simp_all add: S_def is_ws_def assms)
  then obtain x where x: "trim (S ''- **Suggestion**: '' @ v) = S ''- **Suggestion**:'' @ x"
      "extractValue (S ''- **Suggestion**:'' @ x) = v"
    by blast
  show "\<not> is_issue_marker (S ''- **Suggestion**: '' @ v)"
    by (simp add: is_issue_marker_def x markers_distinct)
  show "assign_field c (trim (S ''- **Suggestion**: '' @ v)) = c\<lparr>suggestion := v\<rparr>"
    by (simp add: assign_field_def x markers_distinct)
qed

lemma example_line:
  assumes "trim v = v"
  shows "\<not> is_issue_marker (S ''- **Example**: '' @ v)"
    and "assign_field c (trim (S ''- **Example**: '' @ v)) = c\<lparr>example := v\<rparr>"
proof -
  have "\<exists>x. trim (S ''- **Example**: '' @ v) = S ''- **Example**:'' @ x
      \<and> extractValue (S ''- **Example**:'' @ x) = v"
    by (rule field_line [where ?M0.0 = "S ''- **Example**''"]) (simp_all add: S_def is_ws_def assms)
  then obtain x where x: "trim (S ''- **Example**: '' @ v) = S ''- **Example**:'' @ x"
      "extractValue (S ''- **Example**:'' @ x) = v"
    by blast
  show "\<not> is_issue_marker (S ''- **Example**: '' @ v)"
    by (simp add: is_issue_marker_def x markers_distinct)
  show "assign_field c (trim (S ''- **Example**: '' @ v)) = c\<lparr>example := v\<rparr>"
    by (simp add: assign_field_def x markers_distinct)
qed

lemma render_line_ok:
  assumes "case l of None \<Rightarrow> True | Some (Num n) \<Rightarrow> 0 < n \<and> n < 2 ^ 53 | Some other \<Rightarrow> False"
  shows "trim (render_line l) = render_line l"
    and "10 \<notin> set (render_line l)"
    and "(if render_line l \<noteq> S ''N/A'' then Some (parseInt (render_line l)) else None) = l"
proof -
  from assms consider "l = None" | n where "l = Some (Num n)" "0 < n" "n < 2 ^ 53"
    by (auto split: option.splits js_number.splits)
  then have "trim (render_line l) = render_line l \<and> 10 \<notin> set (render_line l)
      \<and> (if render_line l \<noteq> S ''N/A'' then Some (parseInt (render_line l)) else None) = l"
  proof cases
    case 1
    then show ?thesis by (simp add: render_line_def S_def trim_def is_ws_def)
  next
    case 2
    from 2 have r: "render_line (Some (Num n)) = show_nat (nat n)"
      by (simp add: render_line_def show_int_def)
    from 2 have "nat n < 2 ^ 53" by (simp add: nat_less_iff)
    then have "parseInt (show_nat (nat n)) = Num (int (nat n))" by (rule parseInt_show_nat)
    with 2 have "parseInt (show_nat (nat n)) = Num n" by simp
    then show ?thesis by (simp add: 2(1) r show_nat_no_nl show_nat_not_NA)
  qed
  then show "trim (render_line l) = render_line l" and "10 \<notin> set (render_line l)"
    and "(if render_line l \<noteq> S ''N/A'' then Some (parseInt (render_line l)) else None) = l"
    by simp_all
qed

lemma severity_ok:
  assumes "v \<in> {S ''CRITICAL'', S ''HIGH'', S ''MEDIUM'', S ''LOW''}"
  shows "trim v = v" and "10 \<notin> set v"
  using assms by (auto simp: S_def trim_def is_ws_def)

lemma render_issue_parse:
  assumes wf: "well_formed_issue i" and rest: "rest = [] \<or> is_issue_marker (hd rest)"
  shows "parse_lines ([], None) (render_issue i @ rest) = i # parse_lines ([], None) rest"
proof -
  from wf have t: "trim (itype i) = itype i" "trim (severity i) = severity i"
      "trim (description i) = description i" "trim (suggestion i) = suggestion i"
      "trim (example i) = example i"
    and l: "case line i of None \<Rightarrow> True | Some (Num n) \<Rightarrow> 0 < n \<and> n < 2 ^ 53 | Some other \<Rightarrow> False"
    by (simp_all add: well_formed_issue_def single_line_trimmed_def severity_ok)
  let ?body = "[S ''- **Severity**: '' @ severity i,
      S ''- **Line**: '' @ render_line (line i),
      S ''- **Description**: '' @ description i,
      S ''- **Suggestion**: '' @ suggestion i,
      S ''- **Example**: '' @ example i]"
  have r: "render_issue i @ rest = (S ''- **Issue Type**: '' @ itype i) # ?body @ rest"
    by (simp add: render_issue_def)
  have m: "is_issue_marker (S ''- **Issue Type**: '' @ itype i)"
    using t(1) by (rule issue_type_line)
  have b: "\<forall>ln\<in>set ?body. \<not> is_issue_marker ln"
    using t render_line_ok(1) [OF l]
    by (simp add: severity_line line_line description_line suggestion_line example_line)
  have "foldl (\<lambda>c ln. assign_field c (trim ln)) (new_issue (trim (S ''- **Issue Type**: '' @ itype i))) ?body = i"
    using t render_line_ok(1,3) [OF l]
    by (simp add: issue_type_line severity_line line_line description_line suggestion_line example_line)
  with parse_lines_span [OF m b rest] show ?thesis by (simp only: r)
qed

lemma render_issue_hd:
  "well_formed_issue i \<Longrightarrow> is_issue_marker (hd (render_issue i @ rest))"
  by (simp add: render_issue_def issue_type_line well_formed_issue_def single_line_trimmed_def)

lemma parse_rendered_lines:
  "\<forall>i\<in>set is. well_formed_issue i \<Longrightarrow>
     parse_lines ([], None) (concat (map render_issue is)) = is"
proof (induction "is")
  case Nil
  show ?case by (simp add: parse_lines_Nil)
next
  case (Cons i "is")
  have "concat (map render_issue is) = [] \<or> is_issue_marker (hd (concat (map render_issue is)))"
  proof (cases "is")
    case Nil then show ?thesis by simp
  next
    case (Cons j js)
    with Cons.prems have "well_formed_issue j" by simp
    then show ?thesis using Cons by (simp add: render_issue_hd)
  qed
  with Cons show ?case by (simp add: render_issue_parse)
qed

lemma render_issue_no_nl:
  "well_formed_issue i \<Longrightarrow> \<forall>l\<in>set (render_issue i). 10 \<notin> set l"
  by (simp add: render_issue_def well_formed_issue_def single_line_trimmed_def S_def
        render_line_ok(2) severity_ok(2))

lemma render_issue_not_Nil [simp]: "render_issue i \<noteq> []"
  by (simp add: render_issue_def)

section \<open>Properties of the diff parser\<close>

text \<open>The definitions that evaluate a concrete change.\<close>

lemmas diff_eval = S_def trim_def is_ws_def parseFileChange_def shouldSkipFile_def pattern_matches_def
  detectLanguage_def toLowerCase_def last_segment_def languageMap_def isLanguageSupported_def
  getChangeType_def endsWith_def

lemma clean_loop_filter:
  "clean_loop acc lns = acc @ filter (\<lambda>ln. clean_loop [] [ln] \<noteq> []) lns"
  by (induction lns arbitrary: acc) auto

lemma split_nl_lines_no_nl: "l \<in> set (split_nl s) \<Longrightarrow> 10 \<notin> set l"
proof (induction s arbitrary: l)
  case Nil then show ?case by simp
next
  case (Cons c cs)
  obtain l0 ls where sp: "split_nl cs = l0 # ls" by (cases "split_nl cs") simp_all
  with Cons.IH have "10 \<notin> set l0" "\<forall>x\<in>set ls. 10 \<notin> set x" by auto
  with Cons.prems sp show ?case by (auto split: if_splits)
qed

lemma str_includes_iff: "str_includes s sub \<longleftrightarrow> (\<exists>a b. s = a @ sub @ b)"
proof (induction s)
  case Nil then show ?case by auto
next
  case (Cons c cs)
  show ?case
  proof
    assume "str_includes (c # cs) sub"
    then consider "startsWith (c # cs) sub" | "str_includes cs sub" by auto
    then show "\<exists>a b. c # cs = a @ sub @ b"
    proof cases
      case 1
      then obtain b where "c # cs = sub @ b" by (auto simp: startsWith_prefix prefix_def)
      then have "c # cs = [] @ sub @ b" by simp
      then show ?thesis by blast
    next
      case 2
      with Cons.IH obtain a b where "cs = a @ sub @ b" by blast
      then have "c # cs = (c # a) @ sub @ b" by simp
      then show ?thesis by blast
    qed
  next
    assume "\<exists>a b. c # cs = a @ sub @ b"
    then obtain a b where ab: "c # cs = a @ sub @ b" by blast
    show "str_includes (c # cs) sub"
    proof (cases a)
      case Nil
      with ab have "prefix sub (c # cs)" by (simp add: prefix_def)
      then show ?thesis by (simp add: startsWith_prefix)
    next
      case (Cons x a')
      with ab have "cs = a' @ sub @ b" by simp
      with Cons.IH have "str_includes cs sub" by blast
      then show ?thesis by simp
    qed
  qed
qed

lemma split_nl_hd_prefix: "\<exists>b. s = hd (split_nl s) @ b"
proof (induction s)
  case Nil show ?case by simp
next
  case (Cons c cs)
  obtain l0 ls where sp: "split_nl cs = l0 # ls" by (cases "split_nl cs") simp_all
  with Cons obtain b where "cs = l0 @ b" by auto
  with sp show ?case by auto
qed

lemma split_nl_line_within: "l \<in> set (split_nl s) \<Longrightarrow> \<exists>a b. s = a @ l @ b"
proof (induction s arbitrary: l)
  case Nil then show ?case by simp
next
  case (Cons c cs)
  obtain l0 ls where sp: "split_nl cs = l0 # ls" by (cases "split_nl cs") simp_all
  show ?case
  proof (cases "c = 10")
    case True
    with Cons.prems consider "l = []" | "l \<in> set (split_nl cs)" by auto
    then show ?thesis
    proof cases
      case 1
      have "c # cs = [] @ [] @ (c # cs)" by simp
      with 1 show ?thesis by blast
    next
      case 2
      with Cons.IH obtain a b where "cs = a @ l @ b" by blast
      then have "c # cs = (c # a) @ l @ b" by simp
      then show ?thesis by blast
    qed
  next
    case False
    with Cons.prems sp consider "l = c # l0" | "l \<in> set ls" by auto
    then show ?thesis
    proof cases
      case 1
      from split_nl_hd_prefix [of cs] sp obtain b where "cs = l0 @ b" by auto
      then have "c # cs = [] @ (c # l0) @ b" by simp
      with 1 show ?thesis by blast
    next
      case 2
      with sp have "l \<in> set (split_nl cs)" by simp
      with Cons.IH obtain a b where "cs = a @ l @ b" by blast
      then have "c # cs = (c # a) @ l @ b" by simp
      then show ?thesis by blast
    qed
  qed
qed

lemma split_nl_hd: "hd (split_nl s) = takeWhile (\<lambda>c. c \<noteq> 10) s"
proof (induction s)
  case Nil show ?case by simp
next
  case (Cons c cs)
  obtain l0 ls where sp: "split_nl cs = l0 # ls" by (cases "split_nl cs") simp_all
  with Cons show ?case by auto
qed

lemma hd_split_nl_in: "hd (split_nl s) \<in> set (split_nl s)"
  by simp

lemma str_includes_line:
  assumes "10 \<notin> set sub" "sub \<noteq> []"
  shows "str_includes s sub \<Longrightarrow> \<exists>l\<in>set (split_nl s). str_includes l sub"
proof (induction s)
  case Nil
  with assms show ?case by simp
next
  case (Cons c cs)
  from Cons.prems consider "startsWith (c # cs) sub" | "str_includes cs sub" by auto
  then show ?case
  proof cases
    case 1
    then obtain b where b: "c # cs = sub @ b" by (auto simp: startsWith_prefix prefix_def)
    from assms have "takeWhile (\<lambda>c. c \<noteq> 10) (sub @ b) = sub @ takeWhile (\<lambda>c. c \<noteq> 10) b"
      by (intro takeWhile_append2) auto
    with b have "hd (split_nl (c # cs)) = [] @ sub @ takeWhile (\<lambda>c. c \<noteq> 10) b"
      by (simp only: split_nl_hd append_Nil)
    then have "str_includes (hd (split_nl (c # cs))) sub"
      unfolding str_includes_iff by blast
    with hd_split_nl_in [of "c # cs"] show ?thesis by blast
  next
    case 2
    with Cons.IH obtain l where l: "l \<in> set (split_nl cs)" "str_includes l sub" by blast
    obtain l0 ls where sp: "split_nl cs = l0 # ls" by (cases "split_nl cs") simp_all
    show ?thesis
    proof (cases "c = 10")
      case True
      with l show ?thesis by auto
    next
      case False
      from l sp consider "l = l0" | "l \<in> set ls" by auto
      then show ?thesis
      proof cases
        case 1
        with l have "str_includes (c # l0) sub" by simp
        with False sp show ?thesis by simp
      next
        case 2
        with l False sp show ?thesis by auto
      qed
    qed
  qed
qed

lemma str_includes_of_line:
  assumes "l \<in> set (split_nl s)" "str_includes l sub"
  shows "str_includes s sub"
proof -
  from assms(1) obtain a b where "s = a @ l @ b" using split_nl_line_within by blast
  moreover from assms(2) obtain a' b' where "l = a' @ sub @ b'" unfolding str_includes_iff by blast
  ultimately have "s = (a @ a') @ sub @ (b' @ b)" by simp
  then show ?thesis unfolding str_includes_iff by blast
qed

lemmas extract_eval = S_def extractAddedLines_def extract_step_def hunk_match_at_def strip_prefix_def
  opt_comma_def is_digit_def num_plus_def parseInt_def is_ws_def is_radix_digit_def digit_val_def
  digits_value_def to_double_def round_to_double_def

lemma digit_run:
  assumes "\<forall>c\<in>set ds. is_digit c" "\<not> is_digit x"
  shows "takeWhile is_digit (ds @ x # r) = ds" and "dropWhile is_digit (ds @ x # r) = x # r"
  using assms by simp_all

lemma show_nat_is_digit: "\<forall>c\<in>set (show_nat n). is_digit c"
  using show_nat_digits [of n] by (simp add: is_digit_def)

lemma show_nat_run:
  "\<not> is_digit x \<Longrightarrow> takeWhile is_digit (show_nat n @ x # r) = show_nat n"
  "\<not> is_digit x \<Longrightarrow> dropWhile is_digit (show_nat n @ x # r) = x # r"
  using digit_run [OF show_nat_is_digit] by blast+

lemma hunk_match_at_imp: "hunk_match_at s = Some m \<Longrightarrow> hunk_match s = Some m"
  by (cases s) simp_all

lemma hunk_match_header:
  "hunk_match (S ''@@ -'' @ show_nat a @ S '','' @ show_nat b @ S '' +'' @ show_nat c @ S '','' @ show_nat d
       @ S '' @@'' @ rest) = Some (show_nat c)"
proof -
  have nd: "\<not> is_digit 44" "\<not> is_digit 32" by (simp_all add: is_digit_def)
  have "hunk_match_at (S ''@@ -'' @ show_nat a @ S '','' @ show_nat b @ S '' +'' @ show_nat c @ S '','' @ show_nat d
       @ S '' @@'' @ rest) = Some (show_nat c)"
    by (simp add: hunk_match_at_def strip_prefix_def opt_comma_def S_def show_nat_run nd)
  then show ?thesis by (rule hunk_match_at_imp)
qed

lemma extract_outside_hunk:
  "\<not> inHunk st \<Longrightarrow> \<forall>l\<in>set lns. \<not> startsWith l (S ''@@'') \<Longrightarrow> foldl extract_step st lns = st"
  by (induction lns) (simp_all add: extract_step_def)

lemma header_step:
  assumes "c < 2 ^ 53"
  shows "extract_step st (S ''@@ -'' @ show_nat a @ S '','' @ show_nat b @ S '' +'' @ show_nat c @ S '','' @ show_nat d
       @ S '' @@'' @ rest)
     = st\<lparr>currentLineNumber := Num (int c - 1), inHunk := True\<rparr>"
proof -
  have hdr: "startsWith (S ''@@ -'' @ show_nat a @ S '','' @ show_nat b @ S '' +'' @ show_nat c @ S '','' @ show_nat d
       @ S '' @@'' @ rest) (S ''@@'')"
    by (simp add: S_def)
  from assms have "\<bar>int c + (- 1)\<bar> < 2 ^ 53" by simp
  then have "num_plus (Num (int c)) (- 1) = Num (int c + (- 1))" by (rule num_plus_exact)
  then show ?thesis
    unfolding extract_step_def
    by (simp only: hdr if_True hunk_match_header option.case parseInt_show_nat [OF assms]) simp
qed

lemma line_step:
  assumes "inHunk st" "currentLineNumber st = Num m" "\<bar>m + 1\<bar> < 2 ^ 53" "\<not> startsWith ln (S ''@@'')"
  shows "extract_step st ln =
     st\<lparr>addedLines := addedLines st @
            (if is_recorded ln then [\<lparr>lineNumber = Num (m + 1), content = drop 1 ln\<rparr>] else []),
        currentLineNumber := Num (m + (if advances ln then 1 else 0))\<rparr>"
proof -
  from assms(3) have p: "num_plus (Num m) 1 = Num (m + 1)" by (rule num_plus_exact)
  have r: "is_recorded ln \<Longrightarrow> advances ln" by (simp add: is_recorded_def advances_def)
  show ?thesis
    using assms(1,2,4) r
    by (cases "advances ln"; cases "is_recorded ln")
       (auto simp: extract_step_def Let_def p is_recorded_def advances_def)
qed

lemma entries_from_snoc:
  "entries_from c (lns @ [ln]) =
     entries_from c lns @
       (if is_recorded ln
        then [\<lparr>lineNumber = Num (c + int (length (filter advances lns))), content = drop 1 ln\<rparr>]
        else [])"
proof -
  define F where "F = (\<lambda>j. if is_recorded ((lns @ [ln]) ! j)
                        then [\<lparr>lineNumber = Num (c + int (length (filter advances (take j (lns @ [ln]))))),
                               content = drop 1 ((lns @ [ln]) ! j)\<rparr>]
                        else [])"
  define G where "G = (\<lambda>j. if is_recorded (lns ! j)
                        then [\<lparr>lineNumber = Num (c + int (length (filter advances (take j lns)))),
                               content = drop 1 (lns ! j)\<rparr>]
                        else [])"
  have "entries_from c (lns @ [ln]) = concat (map F [0..<Suc (length lns)])"
    by (simp add: entries_from_def F_def)
  also have "\<dots> = concat (map F [0..<length lns]) @ F (length lns)" by simp
  also have "map F [0..<length lns] = map G [0..<length lns]"
    by (rule map_cong) (simp_all add: F_def G_def nth_append)
  also have "F (length lns) =
      (if is_recorded ln
        then [\<lparr>lineNumber = Num (c + int (length (filter advances lns))), content = drop 1 ln\<rparr>]
        else [])"
    by (simp add: F_def)
  also have "concat (map G [0..<length lns]) = entries_from c lns"
    by (simp add: entries_from_def G_def)
  finally show ?thesis .
qed

lemma body_fold:
  assumes "inHunk st" "currentLineNumber st = Num k" "- 1 \<le> k"
  shows "k + int (length lns) < 2 ^ 53 \<Longrightarrow> \<forall>l\<in>set lns. \<not> startsWith l (S ''@@'') \<Longrightarrow>
     foldl extract_step st lns =
       st\<lparr>addedLines := addedLines st @ entries_from (k + 1) lns,
          currentLineNumber := Num (k + int (length (filter advances lns)))\<rparr>"
proof (induction lns rule: rev_induct)
  case Nil
  from assms show ?case by (simp add: entries_from_def)
next
  case (snoc ln lns)
  let ?m = "k + int (length (filter advances lns))"
  let ?st = "st\<lparr>addedLines := addedLines st @ entries_from (k + 1) lns, currentLineNumber := Num ?m\<rparr>"
  from snoc have ih: "foldl extract_step st lns = ?st" by simp
  have le: "int (length (filter advances lns)) \<le> int (length lns)" by simp
  from snoc.prems(1) have "k + int (length lns) + 1 < 2 ^ 53" by simp
  with le assms(3) have "0 \<le> ?m + 1" "?m + 1 < 2 ^ 53" by linarith+
  then have b: "\<bar>?m + 1\<bar> < 2 ^ 53" by simp
  have s: "extract_step ?st ln =
     ?st\<lparr>addedLines := addedLines ?st @
            (if is_recorded ln then [\<lparr>lineNumber = Num (?m + 1), content = drop 1 ln\<rparr>] else []),
        currentLineNumber := Num (?m + (if advances ln then 1 else 0))\<rparr>"
    using assms(1) snoc.prems(2) b by (intro line_step) simp_all
  have "foldl extract_step st (lns @ [ln]) = extract_step ?st ln" by (simp add: ih)
  also note s
  finally show ?case by (simp add: entries_from_snoc add.commute add.left_commute)
qed

lemma hunk_fold:
  assumes "well_formed_hunk h"
  shows "foldl extract_step st (hunk_lines h) =
     st\<lparr>addedLines := addedLines st @ hunk_entries h,
        currentLineNumber := Num (int (h_new_start h) - 1 + int (length (filter advances (h_body h)))),
        inHunk := True\<rparr>"
proof -
  from assms have c: "h_new_start h < 2 ^ 53"
    and b: "int (h_new_start h) - 1 + int (length (h_body h)) < 2 ^ 53"
    and n: "\<forall>l\<in>set (h_body h). \<not> startsWith l (S ''@@'')"
    by (simp_all add: well_formed_hunk_def list_all_iff)
  let ?st = "st\<lparr>currentLineNumber := Num (int (h_new_start h) - 1), inHunk := True\<rparr>"
  have "foldl extract_step st (hunk_lines h) = foldl extract_step ?st (h_body h)"
    by (simp add: hunk_lines_def hunk_header_def header_step [OF c])
  also have "\<dots> = ?st\<lparr>addedLines := addedLines ?st @ entries_from (int (h_new_start h) - 1 + 1) (h_body h),
          currentLineNumber := Num (int (h_new_start h) - 1 + int (length (filter advances (h_body h))))\<rparr>"
    using b n by (intro body_fold) simp_all
  finally show ?thesis by (simp add: hunk_entries_def)
qed

lemma hunks_fold:
  "\<forall>h\<in>set hunks. well_formed_hunk h \<Longrightarrow>
     addedLines (foldl extract_step st (concat (map hunk_lines hunks))) =
       addedLines st @ concat (map hunk_entries hunks)"
proof (induction hunks arbitrary: st)
  case Nil
  show ?case by simp
next
  case (Cons h hunks)
  then show ?case by (simp add: hunk_fold)
qed

section \<open>Properties of the reviewer\<close>

lemma review_files_acc:
  "review_files reviewCode ctx acc pfiles w =
     (acc @ fst (review_files reviewCode ctx [] pfiles w), snd (review_files reviewCode ctx [] pfiles w))"
proof (induction pfiles arbitrary: acc w)
  case Nil
  show ?case by simp
next
  case (Cons pfile pfiles)
  show ?case
  proof (cases "pf_tooLarge pfile")
    case True
    with Cons.IH [of "acc @ [skipped_review pfile]" w] Cons.IH [of "[skipped_review pfile]" w]
    show ?thesis by simp
  next
    case False
    obtain res w' where r: "reviewCode w (pf_filename pfile) (pf_language pfile) (pf_diff pfile) ctx = (res, w')"
      by (cases "reviewCode w (pf_filename pfile) (pf_language pfile) (pf_diff pfile) ctx")
    show ?thesis
    proof (cases res)
      case (Inl err)
      with False r Cons.IH [of "acc @ [errored_review pfile err]" w'] Cons.IH [of "[errored_review pfile err]" w']
      show ?thesis by simp
    next
      case (Inr review)
      with False r Cons.IH [of "acc @ [normal_review pfile review]" w'] Cons.IH [of "[normal_review pfile review]" w']
      show ?thesis by simp
    qed
  qed
qed

lemma review_files_append:
  "review_files reviewCode ctx acc (pre @ post) w =
     review_files reviewCode ctx (fst (review_files reviewCode ctx acc pre w)) post
       (snd (review_files reviewCode ctx acc pre w))"
proof (induction pre arbitrary: acc w)
  case Nil
  show ?case by simp
next
  case (Cons pfile pre)
  show ?case
  proof (cases "pf_tooLarge pfile")
    case True
    with Cons.IH show ?thesis by simp
  next
    case False
    obtain res w' where r: "reviewCode w (pf_filename pfile) (pf_language pfile) (pf_diff pfile) ctx = (res, w')"
      by (cases "reviewCode w (pf_filename pfile) (pf_language pfile) (pf_diff pfile) ctx")
    with False Cons.IH show ?thesis by (cases res) simp_all
  qed
qed

lemma review_files_filenames:
  "map fr_filename (fst (review_files reviewCode ctx acc pfiles w)) = map fr_filename acc @ map pf_filename pfiles"
proof (induction pfiles arbitrary: acc w)
  case Nil
  show ?case by simp
next
  case (Cons pfile pfiles)
  show ?case
  proof (cases "pf_tooLarge pfile")
    case True
    with Cons.IH show ?thesis by (simp add: skipped_review_def)
  next
    case False
    obtain res w' where r: "reviewCode w (pf_filename pfile) (pf_language pfile) (pf_diff pfile) ctx = (res, w')"
      by (cases "reviewCode w (pf_filename pfile) (pf_language pfile) (pf_diff pfile) ctx")
    with False Cons.IH show ?thesis
      by (cases res) (simp_all add: errored_review_def normal_review_def)
  qed
qed

lemma foldl_text:
  assumes "\<And>c x. f c x = c @ f [] x"
  shows "foldl f c xs = c @ concat (map (f []) xs)"
proof (induction xs arbitrary: c)
  case Nil show ?case by simp
next
  case (Cons x xs)
  have "foldl f c (x # xs) = foldl f (f c x) xs" by simp
  also have "\<dots> = f c x @ concat (map (f []) xs)" by (rule Cons.IH)
  also have "\<dots> = c @ f [] x @ concat (map (f []) xs)" by (subst assms) simp
  finally show ?case by simp
qed

lemma issue_text_acc: "issue_text pr c i = c @ issue_text pr [] i"
  by (simp add: issue_text_def Let_def)

lemma severity_group_acc: "severity_group pr c e = c @ severity_group pr [] e"
  using foldl_text [of "issue_text pr", OF issue_text_acc]
  by (simp add: severity_group_def Let_def)

lemma severity_group_closed:
  "severity_group pr [] (sev, iss) =
     (if iss = [] then []
      else S ''#### '' @ show_opt (map_of severityIcon sev) @ S '' '' @ sev @ S '' Issues'' @ [10, 10]
             @ concat (map (issue_text pr []) iss))"
  using foldl_text [of "issue_text pr", OF issue_text_acc]
  by (simp add: severity_group_def Let_def)

lemma review_text_acc: "review_text pr c r = c @ review_text pr [] r"
  using foldl_text [of "severity_group pr", OF severity_group_acc]
  by (simp add: review_text_def split: option.splits)

lemma foldl_count:
  "foldl (\<lambda>sum x. sum + g x) (n::nat) xs = n + sum_list (map g xs)"
  by (induction xs arbitrary: n) simp_all

lemma severity_rank_eq:
  "s \<in> {S ''CRITICAL'', S ''HIGH'', S ''MEDIUM'', S ''LOW''} \<Longrightarrow>
     (t = s) = (severity_rank t = severity_rank s)"
  by (auto simp: severity_rank_def S_def)

lemma filter_severity_sort:
  assumes "s \<in> {S ''CRITICAL'', S ''HIGH'', S ''MEDIUM'', S ''LOW''}"
  shows "filter (\<lambda>i. severity i = s) (sort_key (\<lambda>i. severity_rank (severity i)) is)
       = filter (\<lambda>i. severity i = s) is"
proof -
  have "filter (\<lambda>i. severity_rank (severity i) = severity_rank s) (sort_key (\<lambda>i. severity_rank (severity i)) is)
      = filter (\<lambda>i. severity_rank (severity i) = severity_rank s) is"
    by (rule sort_key_stable)
  then show ?thesis by (simp only: severity_rank_eq [OF assms, symmetric])
qed

lemma issuesBySeverity_sort:
  "issuesBySeverity (sort_key (\<lambda>i. severity_rank (severity i)) is) = issuesBySeverity is"
  by (simp add: issuesBySeverity_def filter_severity_sort)

text \<open>The definitions that evaluate a concrete comment.\<close>

lemmas comment_eval = review_text_def severity_group_def issue_text_def issuesBySeverity_def
  severityIcon_def show_opt_def line_truthy_def show_line_def show_number_def show_int_def
  show_nat.simps totalIssues_def criticalIssues_def securityIssues_def toUpperCase_def S_def
  ROBOT_def CHECK_MARK_def BAR_CHART_def WARNING_SIGN_def LOCK_def CROSS_MARK_def NEXT_TRACK_def
  MEMO_def ROTATING_LIGHT_def HIGH_VOLTAGE_def LIGHT_BULB_def

section \<open>The claims of the specification\<close>

text \<open>
  Claim C1. Parser round trip: take any list of issues whose type, description,
  suggestion and example are single-line trimmed strings, whose severity is one of
  CRITICAL, HIGH, MEDIUM, LOW and whose line is absent or a positive integer below 2^53
  (the integers that JavaScript numbers hold exactly). Rendering them with the documented
  markers (\<open>N/A\<close> for an absent line) and applying \<open>parseReview\<close> gives back the same
  issues: as many, with the same field values, in the same order.
\<close>

theorem parseReview_round_trip:
  assumes "\<forall>i\<in>set is. well_formed_issue i"
  shows "issues (parseReview (render_response is)) = is"
proof (cases "is = []")
  case True
  have "\<not> is_issue_marker []" by (simp add: is_issue_marker_def S_def)
  with True show ?thesis
    by (simp add: parseReview_def render_response_def parse_lines_Cons parse_line_other_None parse_lines_Nil)
next
  case False
  then have ne: "concat (map render_issue is) \<noteq> []" by (cases "is") simp_all
  have "\<forall>l\<in>set (concat (map render_issue is)). 10 \<notin> set l"
    using assms render_issue_no_nl by auto
  with ne have "split_nl (render_response is) = concat (map render_issue is)"
    unfolding render_response_def by (rule split_nl_join)
  with assms show ?thesis by (simp add: parseReview_def parse_rendered_lines)
qed

text \<open>The round trip at two concrete issues, one with a line number and one without.\<close>

theorem parseReview_round_trip_witness:
  "well_formed_issue \<lparr>itype = S ''SECURITY'', severity = S ''CRITICAL'', line = Some (Num 12),
       description = S ''SQL built by concatenation: unsafe'', suggestion = S ''Bind parameters'',
       example = []\<rparr>
   \<and> well_formed_issue \<lparr>itype = S ''STYLE'', severity = S ''LOW'', line = None,
       description = S ''Long function'', suggestion = [], example = S ''split(it)''\<rparr>
   \<and> issues (parseReview (render_response
        [\<lparr>itype = S ''SECURITY'', severity = S ''CRITICAL'', line = Some (Num 12),
            description = S ''SQL built by concatenation: unsafe'', suggestion = S ''Bind parameters'',
            example = []\<rparr>,
         \<lparr>itype = S ''STYLE'', severity = S ''LOW'', line = None,
            description = S ''Long function'', suggestion = [], example = S ''split(it)''\<rparr>]))
     = [\<lparr>itype = S ''SECURITY'', severity = S ''CRITICAL'', line = Some (Num 12),
            description = S ''SQL built by concatenation: unsafe'', suggestion = S ''Bind parameters'',
            example = []\<rparr>,
         \<lparr>itype = S ''STYLE'', severity = S ''LOW'', line = None,
            description = S ''Long function'', suggestion = [], example = S ''split(it)''\<rparr>]"
proof -
  let ?a = "\<lparr>itype = S ''SECURITY'', severity = S ''CRITICAL'', line = Some (Num 12),
       description = S ''SQL built by concatenation: unsafe'', suggestion = S ''Bind parameters'',
       example = []\<rparr>"
  let ?b = "\<lparr>itype = S ''STYLE'', severity = S ''LOW'', line = None,
       description = S ''Long function'', suggestion = [], example = S ''split(it)''\<rparr>"
  have a: "well_formed_issue ?a"
    by (simp add: well_formed_issue_def single_line_trimmed_def S_def trim_def is_ws_def)
  have b: "well_formed_issue ?b"
    by (simp add: well_formed_issue_def single_line_trimmed_def S_def trim_def is_ws_def)
  from a b have h: "\<forall>i\<in>set [?a, ?b]. well_formed_issue i" by simp
  from a b parseReview_round_trip [OF h] show ?thesis by blast
qed

text \<open>
  Claim C2. In the loop over the parsed files, let the AI call for one file (one that is
  not too large) throw, in the state of the world that the files before it have left.
  The review recorded for that file is marked as an error, carries the error's message
  (the text the error was made with) and has an empty list of issues; the files before it and the files after it are
  reviewed as they would be on their own, and the result has one review per file, in the
  order of the files. One file's failure never aborts the batch.
\<close>

theorem review_files_failure_isolated:
  assumes "\<not> pf_tooLarge pfile"
    and "reviewCode (snd (review_files reviewCode ctx [] pre w))
           (pf_filename pfile) (pf_language pfile) (pf_diff pfile) ctx = (Inl err, w')"
  shows "fst (review_files reviewCode ctx [] (pre @ pfile # post) w) =
           fst (review_files reviewCode ctx [] pre w)
             @ errored_review pfile err # fst (review_files reviewCode ctx [] post w')
    \<and> fr_filename (errored_review pfile err) = pf_filename pfile
    \<and> fr_error (errored_review pfile err)
    \<and> fr_errorMessage (errored_review pfile err) = Some (error_message err)
    \<and> fr_issues (errored_review pfile err) = Some []
    \<and> \<not> fr_skipped (errored_review pfile err)
    \<and> map fr_filename (fst (review_files reviewCode ctx [] (pre @ pfile # post) w))
         = map pf_filename (pre @ pfile # post)
    \<and> error_message (Error m) = m \<and> error_message (SyntaxError m) = m"
proof -
  let ?r1 = "review_files reviewCode ctx [] pre w"
  have "review_files reviewCode ctx [] (pre @ pfile # post) w =
      review_files reviewCode ctx (fst ?r1) (pfile # post) (snd ?r1)"
    by (rule review_files_append)
  also have "\<dots> = review_files reviewCode ctx (fst ?r1 @ [errored_review pfile err]) post w'"
    using assms by simp
  also have "\<dots> = ((fst ?r1 @ [errored_review pfile err]) @ fst (review_files reviewCode ctx [] post w'),
      snd (review_files reviewCode ctx [] post w'))"
    by (rule review_files_acc)
  finally have "fst (review_files reviewCode ctx [] (pre @ pfile # post) w) =
           fst ?r1 @ errored_review pfile err # fst (review_files reviewCode ctx [] post w')"
    by simp
  moreover have "map fr_filename (fst (review_files reviewCode ctx [] (pre @ pfile # post) w))
         = map pf_filename (pre @ pfile # post)"
    using review_files_filenames [of reviewCode ctx "[]"] by simp
  ultimately show ?thesis by (simp add: errored_review_def error_message_def)
qed

text \<open>
  Three files and a service that fails on the second one only; the world state counts the
  calls.
\<close>

theorem review_files_failure_isolated_witness:
  "\<not> pf_tooLarge \<lparr>pf_filename = S ''bad.js'', pf_oldFilename = Some (S ''bad.js''), pf_language = Lang (S ''javascript''),
       pf_changeType = S ''modified'', pf_diff = S ''+x'', pf_additions = Some 1, pf_deletions = Some 0,
       pf_isNewFile = Some False, pf_isDeletedFile = Some False, pf_isRenamedFile = Some False,
       pf_tooLarge = False, pf_size = None\<rparr>
   \<and> (\<lambda>w filename language d ctx.
        (if filename = S ''bad.js'' then Inl (Error (S ''AI service unavailable''))
         else Inr \<lparr>summary = S ''ok'', issues = [], rawReview = S ''ok''\<rparr>, Suc w))
       (snd (review_files (\<lambda>w filename language d ctx.
        (if filename = S ''bad.js'' then Inl (Error (S ''AI service unavailable''))
         else Inr \<lparr>summary = S ''ok'', issues = [], rawReview = S ''ok''\<rparr>, Suc w)) \<lparr>ctx_description = None, commitMessages = []\<rparr> [] [\<lparr>pf_filename = S ''a.js'', pf_oldFilename = Some (S ''a.js''), pf_language = Lang (S ''javascript''),
       pf_changeType = S ''modified'', pf_diff = S ''+x'', pf_additions = Some 1, pf_deletions = Some 0,
       pf_isNewFile = Some False, pf_isDeletedFile = Some False, pf_isRenamedFile = Some False,
       pf_tooLarge = False, pf_size = None\<rparr>] (0::nat)))
       (S ''bad.js'') (Lang (S ''javascript'')) (S ''+x'') \<lparr>ctx_description = None, commitMessages = []\<rparr>
     = (Inl (Error (S ''AI service unavailable'')), 2)
   \<and> fst (review_files (\<lambda>w filename language d ctx.
        (if filename = S ''bad.js'' then Inl (Error (S ''AI service unavailable''))
         else Inr \<lparr>summary = S ''ok'', issues = [], rawReview = S ''ok''\<rparr>, Suc w)) \<lparr>ctx_description = None, commitMessages = []\<rparr> []
        ([\<lparr>pf_filename = S ''a.js'', pf_oldFilename = Some (S ''a.js''), pf_language = Lang (S ''javascript''),
       pf_changeType = S ''modified'', pf_diff = S ''+x'', pf_additions = Some 1, pf_deletions = Some 0,
       pf_isNewFile = Some False, pf_isDeletedFile = Some False, pf_isRenamedFile = Some False,
       pf_tooLarge = False, pf_size = None\<rparr>] @ \<lparr>pf_filename = S ''bad.js'', pf_oldFilename = Some (S ''bad.js''), pf_language = Lang (S ''javascript''),
       pf_changeType = S ''modified'', pf_diff = S ''+x'', pf_additions = Some 1, pf_deletions = Some 0,
       pf_isNewFile = Some False, pf_isDeletedFile = Some False, pf_isRenamedFile = Some False,
       pf_tooLarge = False, pf_size = None\<rparr> # [\<lparr>pf_filename = S ''c.js'', pf_oldFilename = Some (S ''c.js''), pf_language = Lang (S ''javascript''),
       pf_changeType = S ''modified'', pf_diff = S ''+x'', pf_additions = Some 1, pf_deletions = Some 0,
       pf_isNewFile = Some False, pf_isDeletedFile = Some False, pf_isRenamedFile = Some False,
       pf_tooLarge = False, pf_size = None\<rparr>]) (0::nat))
     = [normal_review \<lparr>pf_filename = S ''a.js'', pf_oldFilename = Some (S ''a.js''), pf_language = Lang (S ''javascript''),
       pf_changeType = S ''modified'', pf_diff = S ''+x'', pf_additions = Some 1, pf_deletions = Some 0,
       pf_isNewFile = Some False, pf_isDeletedFile = Some False, pf_isRenamedFile = Some False,
       pf_tooLarge = False, pf_size = None\<rparr> \<lparr>summary = S ''ok'', issues = [], rawReview = S ''ok''\<rparr>,
        errored_review \<lparr>pf_filename = S ''bad.js'', pf_oldFilename = Some (S ''bad.js''), pf_language = Lang (S ''javascript''),
       pf_changeType = S ''modified'', pf_diff = S ''+x'', pf_additions = Some 1, pf_deletions = Some 0,
       pf_isNewFile = Some False, pf_isDeletedFile = Some False, pf_isRenamedFile = Some False,
       pf_tooLarge = False, pf_size = None\<rparr> (Error (S ''AI service unavailable'')),
        normal_review \<lparr>pf_filename = S ''c.js'', pf_oldFilename = Some (S ''c.js''), pf_language = Lang (S ''javascript''),
       pf_changeType = S ''modified'', pf_diff = S ''+x'', pf_additions = Some 1, pf_deletions = Some 0,
       pf_isNewFile = Some False, pf_isDeletedFile = Some False, pf_isRenamedFile = Some False,
       pf_tooLarge = False, pf_size = None\<rparr> \<lparr>summary = S ''ok'', issues = [], rawReview = S ''ok''\<rparr>]"
proof -
  let ?ai = "(\<lambda>w filename language d ctx.
        (if filename = S ''bad.js'' then Inl (Error (S ''AI service unavailable''))
         else Inr \<lparr>summary = S ''ok'', issues = [], rawReview = S ''ok''\<rparr>, Suc w)) :: nat ai_call"
  let ?ctx = "\<lparr>ctx_description = None, commitMessages = []\<rparr>"
  let ?a = "\<lparr>pf_filename = S ''a.js'', pf_oldFilename = Some (S ''a.js''), pf_language = Lang (S ''javascript''),
       pf_changeType = S ''modified'', pf_diff = S ''+x'', pf_additions = Some 1, pf_deletions = Some 0,
       pf_isNewFile = Some False, pf_isDeletedFile = Some False, pf_isRenamedFile = Some False,
       pf_tooLarge = False, pf_size = None\<rparr>"
  let ?bad = "\<lparr>pf_filename = S ''bad.js'', pf_oldFilename = Some (S ''bad.js''), pf_language = Lang (S ''javascript''),
       pf_changeType = S ''modified'', pf_diff = S ''+x'', pf_additions = Some 1, pf_deletions = Some 0,
       pf_isNewFile = Some False, pf_isDeletedFile = Some False, pf_isRenamedFile = Some False,
       pf_tooLarge = False, pf_size = None\<rparr>"
  let ?c = "\<lparr>pf_filename = S ''c.js'', pf_oldFilename = Some (S ''c.js''), pf_language = Lang (S ''javascript''),
       pf_changeType = S ''modified'', pf_diff = S ''+x'', pf_additions = Some 1, pf_deletions = Some 0,
       pf_isNewFile = Some False, pf_isDeletedFile = Some False, pf_isRenamedFile = Some False,
       pf_tooLarge = False, pf_size = None\<rparr>"
  have h1: "\<not> pf_tooLarge ?bad" by simp
  have s1: "review_files ?ai ?ctx [] [?a] 0 = ([normal_review ?a \<lparr>summary = S ''ok'', issues = [], rawReview = S ''ok''\<rparr>], 1)"
    by (simp add: S_def)
  have h2: "?ai (snd (review_files ?ai ?ctx [] [?a] 0))
       (pf_filename ?bad) (pf_language ?bad) (pf_diff ?bad) ?ctx = (Inl (Error (S ''AI service unavailable'')), 2)"
    by (simp only: s1) simp
  have s2: "review_files ?ai ?ctx [] [?c] 2 = ([normal_review ?c \<lparr>summary = S ''ok'', issues = [], rawReview = S ''ok''\<rparr>], 3)"
    by (simp add: S_def)
  note t = review_files_failure_isolated [where reviewCode = ?ai and ctx = ?ctx and pre = "[?a]"
      and w = 0 and pfile = ?bad and err = "Error (S ''AI service unavailable'')" and w' = 2 and post = "[?c]"]
  from t [OF h1 h2]
  have "fst (review_files ?ai ?ctx [] ([?a] @ ?bad # [?c]) 0) =
           fst (review_files ?ai ?ctx [] [?a] 0)
             @ errored_review ?bad (Error (S ''AI service unavailable'')) # fst (review_files ?ai ?ctx [] [?c] 2)"
    by blast
  then have r: "fst (review_files ?ai ?ctx [] ([?a] @ ?bad # [?c]) 0) =
      [normal_review ?a \<lparr>summary = S ''ok'', issues = [], rawReview = S ''ok''\<rparr>, errored_review ?bad (Error (S ''AI service unavailable'')), normal_review ?c \<lparr>summary = S ''ok'', issues = [], rawReview = S ''ok''\<rparr>]"
    by (simp only: s1 s2 fst_conv append.simps)
  from h2 have h2': "?ai (snd (review_files ?ai ?ctx [] [?a] 0))
       (S ''bad.js'') (Lang (S ''javascript'')) (S ''+x'') ?ctx = (Inl (Error (S ''AI service unavailable'')), 2)"
    by simp
  from h1 h2' r show ?thesis by blast
qed

text \<open>
  Claim C3, as amended. For every diff text that does not contain the words
  \<open>Binary files differ\<close>, \<open>cleanDiff\<close> is idempotent: cleaning the cleaned text gives
  the same text. A diff that contains these words is replaced by the fixed placeholder;
  the placeholder is not a fixed point of \<open>cleanDiff\<close>.
\<close>

theorem cleanDiff_idempotent_on_text:
  "(str_includes d (S ''Binary files differ'') \<longrightarrow>
      cleanDiff d = S ''// Binary file - cannot review content'')
   \<and> (\<not> str_includes d (S ''Binary files differ'') \<longrightarrow> cleanDiff (cleanDiff d) = cleanDiff d)"
proof -
  let ?bin = "S ''Binary files differ''"
  define keep where "keep = (\<lambda>ln. clean_loop [] [ln] \<noteq> [])"
  have cf: "clean_loop [] lns = filter keep lns" for lns
    unfolding keep_def by (rule clean_loop_filter [of "[]", unfolded append_Nil])
  have cd: "cleanDiff x = join [10] (filter keep (split_nl x))" if "\<not> str_includes x ?bin" for x
    using that by (simp only: cleanDiff_def cf if_False)
  define K where "K = filter keep (split_nl d)"
  have idem: "cleanDiff (cleanDiff d) = cleanDiff d" if nb: "\<not> str_includes d ?bin"
  proof -
    have c: "cleanDiff d = join [10] K" unfolding K_def by (rule cd [OF nb])
    show ?thesis
    proof (cases "K = []")
      case True
      with c have "cleanDiff d = []" by simp
      then show ?thesis by (simp add: cleanDiff_def S_def)
    next
      case False
      have nl: "\<forall>l\<in>set K. 10 \<notin> set l" by (auto simp: K_def dest: split_nl_lines_no_nl)
      with False have sp: "split_nl (join [10] K) = K" by (rule split_nl_join)
      have "\<not> str_includes (join [10] K) ?bin"
      proof
        assume "str_includes (join [10] K) ?bin"
        moreover have "10 \<notin> set ?bin" "?bin \<noteq> []" by (simp_all add: S_def)
        ultimately obtain l where "l \<in> set (split_nl (join [10] K))" "str_includes l ?bin"
          using str_includes_line by blast
        with sp have "l \<in> set (split_nl d)" "str_includes l ?bin" by (auto simp: K_def)
        then have "str_includes d ?bin" by (rule str_includes_of_line)
        with nb show False by simp
      qed
      then have "cleanDiff (join [10] K) = join [10] (filter keep (split_nl (join [10] K)))"
        by (rule cd)
      also have "\<dots> = join [10] K" by (simp add: sp) (simp add: K_def)
      finally show ?thesis by (simp only: c)
    qed
  qed
  have "str_includes d ?bin \<longrightarrow> cleanDiff d = S ''// Binary file - cannot review content''"
    by (simp only: cleanDiff_def) simp
  with idem show ?thesis by blast
qed

text \<open>The theorem at a small diff with a header line and a stray line, and at a binary diff.\<close>

theorem cleanDiff_idempotent_on_text_witness:
  "\<not> str_includes (S ''diff --git a/x b/x'' @ [10] @ S ''@@ -1 +1,2 @@'' @ [10] @ S ''+let x;'' @ [10] @ S ''old mode 100644'')
       (S ''Binary files differ'')
   \<and> cleanDiff (cleanDiff (S ''diff --git a/x b/x'' @ [10] @ S ''@@ -1 +1,2 @@'' @ [10] @ S ''+let x;'' @ [10] @ S ''old mode 100644''))
     = cleanDiff (S ''diff --git a/x b/x'' @ [10] @ S ''@@ -1 +1,2 @@'' @ [10] @ S ''+let x;'' @ [10] @ S ''old mode 100644'')
   \<and> str_includes (S ''Binary files a/p.png and b/p.png: Binary files differ'') (S ''Binary files differ'')
   \<and> cleanDiff (S ''Binary files a/p.png and b/p.png: Binary files differ'')
     = S ''// Binary file - cannot review content''"
proof -
  let ?d = "S ''diff --git a/x b/x'' @ [10] @ S ''@@ -1 +1,2 @@'' @ [10] @ S ''+let x;'' @ [10] @ S ''old mode 100644''"
  let ?b = "S ''Binary files a/p.png and b/p.png: Binary files differ''"
  have h1: "\<not> str_includes ?d (S ''Binary files differ'')" by (simp add: S_def)
  have h2: "str_includes ?b (S ''Binary files differ'')" by (simp add: S_def)
  from cleanDiff_idempotent_on_text [of ?d] h1
  have r1: "cleanDiff (cleanDiff ?d) = cleanDiff ?d" by blast
  from cleanDiff_idempotent_on_text [of ?b] h2
  have r2: "cleanDiff ?b = S ''// Binary file - cannot review content''" by blast
  from h1 h2 r1 r2 show ?thesis by blast
qed

text \<open>
  The claim as first stated includes binary diffs. The placeholder starts with a slash,
  so cleaning it leaves no line at all.
\<close>

theorem cleanDiff_binary_counterexample:
  "cleanDiff (cleanDiff (S ''Binary files differ'')) = []
   \<and> cleanDiff (S ''Binary files differ'') = S ''// Binary file - cannot review content''
   \<and> cleanDiff (cleanDiff (S ''Binary files differ'')) \<noteq> cleanDiff (S ''Binary files differ'')"
  by (simp add: cleanDiff_def S_def)

text \<open>
  Claim C4. One step of the loop of \<open>extractAddedLines\<close>, line by line: a hunk header
  \<open>@@ -a,b +c,d @@\<close> (with anything after it) sets the counter to \<open>c - 1\<close> and makes the
  loop active; before the first header every other line is ignored, so a text with no
  header line gives no entry; in a hunk, a line \<open>+text\<close> that does not start with \<open>+++\<close>
  is recorded with line number counter + 1 and content \<open>text\<close>, and the counter
  grows by one; a context line, or a line that starts with \<open>+++\<close>, only makes the counter
  grow; a deletion line changes nothing. The whole function on a diff made of lines
  before the first header and then any number of hunks: its result is, hunk after hunk,
  one entry for each recorded line, numbered from the \<open>c\<close> of its own header by the
  context and addition lines before it. On the diff of the specification the result is
  the one entry with line number 2 and content \<open>  console.log(1);\<close>. Numbers are taken
  below 2^53, where JavaScript's arithmetic is exact.
\<close>

theorem extractAddedLines_steps:
  "(c < 2 ^ 53 \<longrightarrow>
      extract_step st (S ''@@ -'' @ show_nat a @ S '','' @ show_nat b @ S '' +'' @ show_nat c @ S '','' @ show_nat d
       @ S '' @@'' @ rest)
        = st\<lparr>currentLineNumber := Num (int c - 1), inHunk := True\<rparr>)
   \<and> (\<not> inHunk st \<and> \<not> startsWith ln (S ''@@'') \<longrightarrow> extract_step st ln = st)
   \<and> (inHunk st \<and> currentLineNumber st = Num n \<and> \<bar>n + 1\<bar> < 2 ^ 53
        \<and> \<not> startsWith (43 # u) (S ''+++'') \<longrightarrow>
      extract_step st (43 # u)
        = st\<lparr>addedLines := addedLines st @ [\<lparr>lineNumber = Num (n + 1), content = u\<rparr>],
             currentLineNumber := Num (n + 1)\<rparr>)
   \<and> (inHunk st \<and> currentLineNumber st = Num n \<and> \<bar>n + 1\<bar> < 2 ^ 53 \<longrightarrow>
      extract_step st (32 # u) = st\<lparr>currentLineNumber := Num (n + 1)\<rparr>)
   \<and> (inHunk st \<and> currentLineNumber st = Num n \<and> \<bar>n + 1\<bar> < 2 ^ 53 \<longrightarrow>
      extract_step st (S ''+++'' @ u) = st\<lparr>currentLineNumber := Num (n + 1)\<rparr>)
   \<and> (inHunk st \<longrightarrow> extract_step st (45 # u) = st)
   \<and> ((\<forall>l\<in>set (split_nl d'). \<not> startsWith l (S ''@@'')) \<longrightarrow> extractAddedLines d' = [])
   \<and> (split_nl d'' = pre @ concat (map hunk_lines hunks)
        \<and> (\<forall>l\<in>set pre. \<not> startsWith l (S ''@@''))
        \<and> (\<forall>h\<in>set hunks. well_formed_hunk h) \<longrightarrow>
      extractAddedLines d'' = concat (map hunk_entries hunks))
   \<and> extractAddedLines (S ''@@ -1,3 +1,4 @@'' @ [10] @ S '' function test() {'' @ [10]
        @ S ''+  console.log(1);'' @ [10] @ S ''   return true;'' @ [10] @ S '' }'')
     = [\<lparr>lineNumber = Num 2, content = S ''  console.log(1);''\<rparr>]"
proof -
  have 1: "c < 2 ^ 53 \<longrightarrow>
      extract_step st (S ''@@ -'' @ show_nat a @ S '','' @ show_nat b @ S '' +'' @ show_nat c @ S '','' @ show_nat d
       @ S '' @@'' @ rest)
        = st\<lparr>currentLineNumber := Num (int c - 1), inHunk := True\<rparr>"
    by (simp add: header_step)
  have 2: "\<not> inHunk st \<and> \<not> startsWith ln (S ''@@'') \<longrightarrow> extract_step st ln = st"
    by (simp add: extract_step_def)
  have 3: "inHunk st \<and> currentLineNumber st = Num n \<and> \<bar>n + 1\<bar> < 2 ^ 53
        \<and> \<not> startsWith (43 # u) (S ''+++'') \<longrightarrow>
      extract_step st (43 # u)
        = st\<lparr>addedLines := addedLines st @ [\<lparr>lineNumber = Num (n + 1), content = u\<rparr>],
             currentLineNumber := Num (n + 1)\<rparr>"
    by (simp add: extract_step_def S_def num_plus_exact)
  have 4: "inHunk st \<and> currentLineNumber st = Num n \<and> \<bar>n + 1\<bar> < 2 ^ 53 \<longrightarrow>
      extract_step st (32 # u) = st\<lparr>currentLineNumber := Num (n + 1)\<rparr>"
    by (simp add: extract_step_def S_def num_plus_exact)
  have 5: "inHunk st \<and> currentLineNumber st = Num n \<and> \<bar>n + 1\<bar> < 2 ^ 53 \<longrightarrow>
      extract_step st (S ''+++'' @ u) = st\<lparr>currentLineNumber := Num (n + 1)\<rparr>"
    by (simp add: extract_step_def S_def num_plus_exact)
  have 6: "inHunk st \<longrightarrow> extract_step st (45 # u) = st"
    by (simp add: extract_step_def S_def)
  have 7: "(\<forall>l\<in>set (split_nl d'). \<not> startsWith l (S ''@@'')) \<longrightarrow> extractAddedLines d' = []"
    by (simp add: extractAddedLines_def extract_outside_hunk)
  have 8: "split_nl d'' = pre @ concat (map hunk_lines hunks)
        \<and> (\<forall>l\<in>set pre. \<not> startsWith l (S ''@@''))
        \<and> (\<forall>h\<in>set hunks. well_formed_hunk h) \<longrightarrow>
      extractAddedLines d'' = concat (map hunk_entries hunks)"
    by (simp add: extractAddedLines_def extract_outside_hunk hunks_fold)
  have 9: "extractAddedLines (S ''@@ -1,3 +1,4 @@'' @ [10] @ S '' function test() {'' @ [10]
        @ S ''+  console.log(1);'' @ [10] @ S ''   return true;'' @ [10] @ S '' }'')
     = [\<lparr>lineNumber = Num 2, content = S ''  console.log(1);''\<rparr>]"
    by (simp add: extract_eval)
  from 1 2 3 4 5 6 7 8 9 show ?thesis by blast
qed

text \<open>
  The steps at a concrete header and at concrete lines, inside and outside a hunk, and
  the whole function on a diff with a header line of the file and two hunks.
\<close>

theorem extractAddedLines_steps_witness:
  "extract_step \<lparr>addedLines = [], currentLineNumber = Num 0, inHunk = False\<rparr> (S ''@@ -7,2 +9,3 @@ f()'')
     = \<lparr>addedLines = [], currentLineNumber = Num 8, inHunk = True\<rparr>
   \<and> extract_step \<lparr>addedLines = [], currentLineNumber = Num 8, inHunk = True\<rparr> (S ''+x = 1'')
     = \<lparr>addedLines = [\<lparr>lineNumber = Num 9, content = S ''x = 1''\<rparr>], currentLineNumber = Num 9, inHunk = True\<rparr>
   \<and> extract_step \<lparr>addedLines = [], currentLineNumber = Num 8, inHunk = True\<rparr> (S '' y'')
     = \<lparr>addedLines = [], currentLineNumber = Num 9, inHunk = True\<rparr>
   \<and> extract_step \<lparr>addedLines = [], currentLineNumber = Num 8, inHunk = True\<rparr> (S ''-z'')
     = \<lparr>addedLines = [], currentLineNumber = Num 8, inHunk = True\<rparr>
   \<and> extract_step \<lparr>addedLines = [], currentLineNumber = Num 0, inHunk = False\<rparr> (S ''+x = 1'')
     = \<lparr>addedLines = [], currentLineNumber = Num 0, inHunk = False\<rparr>
   \<and> extractAddedLines (S ''+a'' @ [10] @ S ''+b'') = []
   \<and> well_formed_hunk \<lparr>h_old_start = 1, h_old_count = 2, h_new_start = 1, h_new_count = 3, h_heading = [],
        h_body = [S '' a'', S ''+b'', S ''-c'']\<rparr>
   \<and> well_formed_hunk \<lparr>h_old_start = 10, h_old_count = 1, h_new_start = 11, h_new_count = 3, h_heading = S '' f()'',
        h_body = [S ''+x'', S ''+++y'', S ''+z'']\<rparr>
   \<and> extractAddedLines (S ''diff --git a/f b/f'' @ [10] @ S ''@@ -1,2 +1,3 @@'' @ [10] @ S '' a'' @ [10] @ S ''+b'' @ [10] @ S ''-c'' @ [10]
        @ S ''@@ -10,1 +11,3 @@ f()'' @ [10] @ S ''+x'' @ [10] @ S ''+++y'' @ [10] @ S ''+z'')
     = [\<lparr>lineNumber = Num 2, content = S ''b''\<rparr>, \<lparr>lineNumber = Num 11, content = S ''x''\<rparr>,
        \<lparr>lineNumber = Num 13, content = S ''z''\<rparr>]"
proof -
  let ?s0 = "\<lparr>addedLines = [], currentLineNumber = Num 0, inHunk = False\<rparr>"
  let ?s1 = "\<lparr>addedLines = [], currentLineNumber = Num 8, inHunk = True\<rparr>"
  let ?h1 = "\<lparr>h_old_start = 1, h_old_count = 2, h_new_start = 1, h_new_count = 3, h_heading = [],
        h_body = [S '' a'', S ''+b'', S ''-c'']\<rparr>"
  let ?h2 = "\<lparr>h_old_start = 10, h_old_count = 1, h_new_start = 11, h_new_count = 3, h_heading = S '' f()'',
        h_body = [S ''+x'', S ''+++y'', S ''+z'']\<rparr>"
  let ?d = "S ''diff --git a/f b/f'' @ [10] @ S ''@@ -1,2 +1,3 @@'' @ [10] @ S '' a'' @ [10] @ S ''+b'' @ [10] @ S ''-c'' @ [10]
        @ S ''@@ -10,1 +11,3 @@ f()'' @ [10] @ S ''+x'' @ [10] @ S ''+++y'' @ [10] @ S ''+z''"
  have n: "show_nat 7 = S ''7''" "show_nat 2 = S ''2''" "show_nat 9 = S ''9''" "show_nat 3 = S ''3''"
      "show_nat 1 = S ''1''" "show_nat (Suc 0) = S ''1''" "show_nat 10 = S ''10''" "show_nat 11 = S ''11''"
    by (simp_all add: show_nat.simps S_def)
  have e: "S ''@@ -7,2 +9,3 @@ f()'' = S ''@@ -'' @ show_nat 7 @ S '','' @ show_nat 2 @ S '' +'' @ show_nat 9
       @ S '','' @ show_nat 3 @ S '' @@'' @ S '' f()''"
    by (simp add: n) (simp add: S_def)
  note t0 = extractAddedLines_steps [where st = ?s0 and a = 7 and b = 2 and c = 9 and d = 3
      and rest = "S '' f()''" and ln = "S ''+x = 1''" and d' = "S ''+a'' @ [10] @ S ''+b''"
      and d'' = ?d and pre = "[S ''diff --git a/f b/f'']" and hunks = "[?h1, ?h2]"]
  note t1 = extractAddedLines_steps [where st = ?s1 and n = 8 and u = "S ''x = 1''"]
  note t2 = extractAddedLines_steps [where st = ?s1 and n = 8 and u = "S ''y''"]
  note t3 = extractAddedLines_steps [where st = ?s1 and n = 8 and u = "S ''z''"]
  have c: "(9::nat) < 2 ^ 53" by simp
  from t0 c have "extract_step ?s0 (S ''@@ -'' @ show_nat 7 @ S '','' @ show_nat 2 @ S '' +'' @ show_nat 9
       @ S '','' @ show_nat 3 @ S '' @@'' @ S '' f()'')
        = ?s0\<lparr>currentLineNumber := Num (int 9 - 1), inHunk := True\<rparr>" by blast
  then have a: "extract_step ?s0 (S ''@@ -7,2 +9,3 @@ f()'') = ?s1"
    by (simp only: e [symmetric]) simp
  have h1: "inHunk ?s1 \<and> currentLineNumber ?s1 = Num 8 \<and> \<bar>(8::int) + 1\<bar> < 2 ^ 53
       \<and> \<not> startsWith (43 # S ''x = 1'') (S ''+++'')"
    by (simp add: S_def)
  have b: "extract_step ?s1 (S ''+x = 1'')
     = \<lparr>addedLines = [\<lparr>lineNumber = Num 9, content = S ''x = 1''\<rparr>], currentLineNumber = Num 9, inHunk = True\<rparr>"
  proof -
    from t1 h1 have "extract_step ?s1 (43 # S ''x = 1'')
          = ?s1\<lparr>addedLines := addedLines ?s1 @ [\<lparr>lineNumber = Num (8 + 1), content = S ''x = 1''\<rparr>],
               currentLineNumber := Num (8 + 1)\<rparr>" by blast
    then show ?thesis by (simp add: S_def)
  qed
  have cc: "extract_step ?s1 (S '' y'') = \<lparr>addedLines = [], currentLineNumber = Num 9, inHunk = True\<rparr>"
  proof -
    from t2 h1 have "extract_step ?s1 (32 # S ''y'') = ?s1\<lparr>currentLineNumber := Num (8 + 1)\<rparr>" by blast
    then show ?thesis by (simp add: S_def)
  qed
  have dd: "extract_step ?s1 (S ''-z'') = ?s1"
  proof -
    from t3 h1 have "extract_step ?s1 (45 # S ''z'') = ?s1" by blast
    then show ?thesis by (simp add: S_def)
  qed
  have h2: "\<not> inHunk ?s0 \<and> \<not> startsWith (S ''+x = 1'') (S ''@@'')" by (simp add: S_def)
  from t0 h2 have f: "extract_step ?s0 (S ''+x = 1'') = ?s0" by blast
  have h3: "\<forall>l\<in>set (split_nl (S ''+a'' @ [10] @ S ''+b'')). \<not> startsWith l (S ''@@'')" by (simp add: S_def)
  from t0 h3 have g: "extractAddedLines (S ''+a'' @ [10] @ S ''+b'') = []" by blast
  have w1: "well_formed_hunk ?h1" by (simp add: well_formed_hunk_def S_def)
  have w2: "well_formed_hunk ?h2" by (simp add: well_formed_hunk_def S_def)
  have sp: "split_nl ?d = [S ''diff --git a/f b/f''] @ concat (map hunk_lines [?h1, ?h2])"
    by (simp add: hunk_lines_def hunk_header_def n) (simp add: S_def)
  have pre: "\<forall>l\<in>set [S ''diff --git a/f b/f'']. \<not> startsWith l (S ''@@'')" by (simp add: S_def)
  from w1 w2 have wf: "\<forall>h\<in>set [?h1, ?h2]. well_formed_hunk h" by simp
  from t0 sp pre wf have "extractAddedLines ?d = concat (map hunk_entries [?h1, ?h2])" by blast
  also have "\<dots> = [\<lparr>lineNumber = Num 2, content = S ''b''\<rparr>, \<lparr>lineNumber = Num 11, content = S ''x''\<rparr>,
        \<lparr>lineNumber = Num 13, content = S ''z''\<rparr>]"
    by (simp add: hunk_entries_def entries_from_def is_recorded_def advances_def S_def)
  finally have k: "extractAddedLines ?d = [\<lparr>lineNumber = Num 2, content = S ''b''\<rparr>, \<lparr>lineNumber = Num 11, content = S ''x''\<rparr>,
        \<lparr>lineNumber = Num 13, content = S ''z''\<rparr>]" .
  from a b cc dd f g w1 w2 k show ?thesis by blast
qed

text \<open>
  Claim C5, as amended. For a change with a non-empty diff whose filename matches no skip
  pattern and whose detected language is not in the supported list, \<open>parseFileChange\<close>
  returns no parsed file as long as the diff is not longer than \<open>maxDiffSize\<close>. The size
  test comes before the language test: a longer diff (one that is not only white space)
  gives the too-large record, whatever the language.
\<close>

theorem parseFileChange_unsupported_language:
  assumes "diff ch = Some d" and "d \<noteq> []"
    and "shouldSkipFile rx cfg (new_path ch) = Inr False"
    and "\<not> isLanguageSupported cfg (detectLanguage (new_path ch))"
  shows "(int (length d) \<le> maxDiffSize cfg \<longrightarrow> parseFileChange rx cfg ch = Inr None)
    \<and> (trim d \<noteq> [] \<and> int (length d) > maxDiffSize cfg \<longrightarrow>
         (\<exists>parsedFile. parseFileChange rx cfg ch = Inr (Some parsedFile)
            \<and> pf_tooLarge parsedFile \<and> pf_size parsedFile = Some (length d)
            \<and> pf_filename parsedFile = new_path ch))"
  using assms by (simp add: parseFileChange_def Let_def)

text \<open>The theorem at a small diff of a file with an unknown extension.\<close>

theorem parseFileChange_unsupported_language_witness:
  "diff \<lparr>old_path = S ''notes.xyz'', new_path = S ''notes.xyz'', new_file = False,
      deleted_file = False, renamed_file = False, diff = Some (S ''+hello'')\<rparr> = Some (S ''+hello'')
   \<and> S ''+hello'' \<noteq> []
   \<and> shouldSkipFile (\<lambda>src subject. Inr False)
        \<lparr>maxDiffSize = 10000, supportedLanguages = [S ''javascript''], skipFiles = [S ''yarn.lock''],
           provider = S ''openai'', openai_model = S ''gpt-4''\<rparr> (S ''notes.xyz'') = Inr False
   \<and> \<not> isLanguageSupported
        \<lparr>maxDiffSize = 10000, supportedLanguages = [S ''javascript''], skipFiles = [S ''yarn.lock''],
           provider = S ''openai'', openai_model = S ''gpt-4''\<rparr> (detectLanguage (S ''notes.xyz''))
   \<and> parseFileChange (\<lambda>src subject. Inr False)
        \<lparr>maxDiffSize = 10000, supportedLanguages = [S ''javascript''], skipFiles = [S ''yarn.lock''],
           provider = S ''openai'', openai_model = S ''gpt-4''\<rparr>
        \<lparr>old_path = S ''notes.xyz'', new_path = S ''notes.xyz'', new_file = False,
           deleted_file = False, renamed_file = False, diff = Some (S ''+hello'')\<rparr> = Inr None"
proof -
  let ?cfg = "\<lparr>maxDiffSize = 10000, supportedLanguages = [S ''javascript''], skipFiles = [S ''yarn.lock''],
           provider = S ''openai'', openai_model = S ''gpt-4''\<rparr>"
  let ?ch = "\<lparr>old_path = S ''notes.xyz'', new_path = S ''notes.xyz'', new_file = False,
           deleted_file = False, renamed_file = False, diff = Some (S ''+hello'')\<rparr>"
  let ?rx = "\<lambda>src subject. Inr False :: js_error + bool"
  have h1: "diff ?ch = Some (S ''+hello'')" by simp
  have h2: "S ''+hello'' \<noteq> []" by (simp add: S_def)
  have h3: "shouldSkipFile ?rx ?cfg (new_path ?ch) = Inr False" by (simp add: diff_eval)
  have h4: "\<not> isLanguageSupported ?cfg (detectLanguage (new_path ?ch))" by (simp add: diff_eval)
  have h5: "int (length (S ''+hello'')) \<le> maxDiffSize ?cfg" by (simp add: S_def)
  from parseFileChange_unsupported_language [OF h1 h2 h3 h4] h5
  have "parseFileChange ?rx ?cfg ?ch = Inr None" by blast
  with h1 h2 h3 h4 show ?thesis by simp
qed

text \<open>
  The claim as first stated says "regardless of the diff's size". With \<open>maxDiffSize = 5\<close>
  and a diff of 12 characters, the same file is returned as a too-large record.
\<close>

theorem parseFileChange_unsupported_large_counterexample:
  "diff \<lparr>old_path = S ''notes.xyz'', new_path = S ''notes.xyz'', new_file = False,
      deleted_file = False, renamed_file = False, diff = Some (S ''+hello world'')\<rparr> = Some (S ''+hello world'')
   \<and> S ''+hello world'' \<noteq> []
   \<and> shouldSkipFile (\<lambda>src subject. Inr False)
        \<lparr>maxDiffSize = 5, supportedLanguages = [S ''javascript''], skipFiles = [S ''yarn.lock''],
           provider = S ''openai'', openai_model = S ''gpt-4''\<rparr> (S ''notes.xyz'') = Inr False
   \<and> \<not> isLanguageSupported
        \<lparr>maxDiffSize = 5, supportedLanguages = [S ''javascript''], skipFiles = [S ''yarn.lock''],
           provider = S ''openai'', openai_model = S ''gpt-4''\<rparr> (detectLanguage (S ''notes.xyz''))
   \<and> parseFileChange (\<lambda>src subject. Inr False)
        \<lparr>maxDiffSize = 5, supportedLanguages = [S ''javascript''], skipFiles = [S ''yarn.lock''],
           provider = S ''openai'', openai_model = S ''gpt-4''\<rparr>
        \<lparr>old_path = S ''notes.xyz'', new_path = S ''notes.xyz'', new_file = False,
           deleted_file = False, renamed_file = False, diff = Some (S ''+hello world'')\<rparr>
      = Inr (Some \<lparr>pf_filename = S ''notes.xyz'', pf_oldFilename = None,
                     pf_language = Lang (S ''unknown''), pf_changeType = S ''modified'',
                     pf_diff = S ''// Diff too large for review'',
                     pf_additions = None, pf_deletions = None, pf_isNewFile = None,
                     pf_isDeletedFile = None, pf_isRenamedFile = None,
                     pf_tooLarge = True, pf_size = Some 12\<rparr>)"
  by (simp add: diff_eval)

text \<open>
  Claim C6 says that a pattern containing \<open>*\<close> or \<open>?\<close> is matched as a glob. The code
  translates \<open>?\<close> to the regular expression's dot, but it tests only for \<open>*\<close> before it
  translates: a pattern with \<open>?\<close> and no \<open>*\<close> is compared literally. With the single
  pattern \<open>file?.js\<close>, the file \<open>file1.js\<close> is not skipped, whatever the regular
  expression engine does: it is never asked. With a \<open>*\<close> added to the pattern, the engine
  is asked with the source \<open>file..js.*\<close>, where the \<open>?\<close> has become a dot.
\<close>

theorem shouldSkipFile_question_mark_only:
  "shouldSkipFile rx
     \<lparr>maxDiffSize = 10000, supportedLanguages = [S ''javascript''], skipFiles = [S ''file?.js''],
        provider = S ''openai'', openai_model = S ''gpt-4''\<rparr> (S ''file1.js'') = Inr False
   \<and> shouldSkipFile rx
     \<lparr>maxDiffSize = 10000, supportedLanguages = [S ''javascript''], skipFiles = [S ''file?.js*''],
        provider = S ''openai'', openai_model = S ''gpt-4''\<rparr> (S ''file1.js'')
     = rx (S ''file..js.*'') (S ''file1.js'')"
  by (simp add: diff_eval replace_all_def split: sum.splits)




text \<open>
  Claim C8. The layout of \<open>generateReviewComment\<close>. When the total number of issues over
  all reviews is zero, the header is followed by the fixed congratulation line; otherwise
  by a summary block with the number of files and of issues, where the line for critical
  issues and the line for security issues appear only when their count is not zero. The
  three counts are sums over the reviews: of all issues, of the issues of severity
  CRITICAL, of the issues of type SECURITY. Then come the texts of the reviews, in order,
  and the footer. A failed review prints its error, a skipped one its reason, one without
  issues a fixed line. In any other review the issues are emitted in groups by severity,
  in the order CRITICAL, HIGH, MEDIUM, LOW, each group under its heading and pictograph;
  an empty group emits nothing. The order of the groups does not depend on the order of
  the issues: the text is the same as for the issues sorted (stably) by severity. An
  issue prints its type, its line number when it has one that is not zero, its
  description, and its suggestion and example when they are not empty.
\<close>

theorem generateReviewComment_layout:
  "(totalIssues reviews = 0 \<longrightarrow>
      generateReviewComment pr cfg now reviews =
        S ''## '' @ ROBOT @ S '' AI Code Review'' @ [10, 10]
        @ CHECK_MARK @ S '' **Great work!** No issues found in this merge request.'' @ [10, 10]
        @ concat (map (review_text pr []) reviews)
        @ S ''---'' @ [10]
        @ S ''*Review generated by GitLab AI Reviewer at '' @ now @ S ''*'' @ [10]
        @ S ''*Powered by '' @ toUpperCase (provider cfg) @ S '' '' @ openai_model cfg @ S ''*'')
   \<and> (totalIssues reviews \<noteq> 0 \<longrightarrow>
      generateReviewComment pr cfg now reviews =
        S ''## '' @ ROBOT @ S '' AI Code Review'' @ [10, 10]
        @ BAR_CHART @ S '' **Review Summary:**'' @ [10]
        @ S ''- **Files Reviewed:** '' @ show_nat (length reviews) @ [10]
        @ S ''- **Total Issues:** '' @ show_nat (totalIssues reviews) @ [10]
        @ (if criticalIssues reviews = 0 then []
           else S ''- **Critical Issues:** '' @ WARNING_SIGN @ S '' '' @ show_nat (criticalIssues reviews) @ [10])
        @ (if securityIssues reviews = 0 then []
           else S ''- **Security Issues:** '' @ LOCK @ S '' '' @ show_nat (securityIssues reviews) @ [10])
        @ [10]
        @ concat (map (review_text pr []) reviews)
        @ S ''---'' @ [10]
        @ S ''*Review generated by GitLab AI Reviewer at '' @ now @ S ''*'' @ [10]
        @ S ''*Powered by '' @ toUpperCase (provider cfg) @ S '' '' @ openai_model cfg @ S ''*'')
   \<and> totalIssues reviews =
        sum_list (map (\<lambda>r. case fr_issues r of None \<Rightarrow> 0 | Some is \<Rightarrow> length is) reviews)
   \<and> criticalIssues reviews =
        sum_list (map (\<lambda>r. case fr_issues r of None \<Rightarrow> 0
            | Some is \<Rightarrow> length (filter (\<lambda>i. severity i = S ''CRITICAL'') is)) reviews)
   \<and> securityIssues reviews =
        sum_list (map (\<lambda>r. case fr_issues r of None \<Rightarrow> 0
            | Some is \<Rightarrow> length (filter (\<lambda>i. itype i = S ''SECURITY'') is)) reviews)
   \<and> (fr_error r \<longrightarrow>
      review_text pr [] r =
        S ''### '' @ CROSS_MARK @ S '' '' @ fr_filename r @ [10]
        @ S ''*Error during review: '' @ show_opt (fr_errorMessage r) @ S ''*'' @ [10, 10])
   \<and> (\<not> fr_error r \<and> fr_skipped r \<longrightarrow>
      review_text pr [] r =
        S ''### '' @ NEXT_TRACK @ S '' '' @ fr_filename r @ [10]
        @ S ''*Skipped: '' @ show_opt (fr_reason r) @ S ''*'' @ [10, 10])
   \<and> (\<not> fr_error r \<and> \<not> fr_skipped r \<and> (fr_issues r = None \<or> fr_issues r = Some []) \<longrightarrow>
      review_text pr [] r =
        S ''### '' @ CHECK_MARK @ S '' '' @ fr_filename r @ [10] @ S ''*No issues found*'' @ [10, 10])
   \<and> (\<not> fr_error r \<and> \<not> fr_skipped r \<and> fr_issues r = Some is \<and> is \<noteq> [] \<longrightarrow>
      review_text pr [] r =
        S ''### '' @ MEMO @ S '' '' @ fr_filename r @ [10]
        @ S ''*'' @ show_nat (length is) @ S '' issue(s) found*'' @ [10, 10]
        @ concat (map (\<lambda>s. severity_group pr [] (s, filter (\<lambda>i. severity i = s) is))
                   [S ''CRITICAL'', S ''HIGH'', S ''MEDIUM'', S ''LOW'']))
   \<and> severity_group pr [] (s, []) = []
   \<and> (g \<noteq> [] \<longrightarrow>
      severity_group pr [] (s, g) =
        S ''#### '' @ show_opt (map_of severityIcon s) @ S '' '' @ s @ S '' Issues'' @ [10, 10]
        @ concat (map (issue_text pr []) g))
   \<and> map (\<lambda>s. show_opt (map_of severityIcon s)) [S ''CRITICAL'', S ''HIGH'', S ''MEDIUM'', S ''LOW'']
       = [ROTATING_LIGHT, WARNING_SIGN, HIGH_VOLTAGE, LIGHT_BULB]
   \<and> review_text pr [] (r\<lparr>fr_issues := Some (sort_key (\<lambda>i. severity_rank (severity i)) is)\<rparr>)
       = review_text pr [] (r\<lparr>fr_issues := Some is\<rparr>)
   \<and> issue_text pr [] i =
        S ''**'' @ itype i @ S ''**''
        @ (if line_truthy (line i) then S '' (Line '' @ show_line pr (line i) @ S '')'' else [])
        @ [10] @ description i @ [10, 10]
        @ (if suggestion i = [] then [] else S ''*Suggestion:* '' @ suggestion i @ [10, 10])
        @ (if example i = [] then []
           else S ''*Example:*'' @ [10] @ S ''```'' @ [10] @ example i @ [10] @ S ''```'' @ [10, 10])
   \<and> (n \<noteq> 0 \<and> \<bar>n\<bar> < 2 ^ 53 \<longrightarrow>
      line_truthy (Some (Num n)) \<and> show_line pr (Some (Num n)) = show_int n)
   \<and> \<not> line_truthy None \<and> \<not> line_truthy (Some NaN) \<and> \<not> line_truthy (Some (Num 0))"
proof -
  have files: "foldl (review_text pr) c reviews = c @ concat (map (review_text pr []) reviews)" for c
    by (rule foldl_text) (rule review_text_acc)
  have groups: "foldl (severity_group pr) c es = c @ concat (map (severity_group pr []) es)" for c es
    by (rule foldl_text) (rule severity_group_acc)
  have c1: "totalIssues reviews = 0 \<longrightarrow>
      generateReviewComment pr cfg now reviews =
        S ''## '' @ ROBOT @ S '' AI Code Review'' @ [10, 10]
        @ CHECK_MARK @ S '' **Great work!** No issues found in this merge request.'' @ [10, 10]
        @ concat (map (review_text pr []) reviews)
        @ S ''---'' @ [10]
        @ S ''*Review generated by GitLab AI Reviewer at '' @ now @ S ''*'' @ [10]
        @ S ''*Powered by '' @ toUpperCase (provider cfg) @ S '' '' @ openai_model cfg @ S ''*''"
    by (simp add: generateReviewComment_def files Let_def)
  have c2: "totalIssues reviews \<noteq> 0 \<longrightarrow>
      generateReviewComment pr cfg now reviews =
        S ''## '' @ ROBOT @ S '' AI Code Review'' @ [10, 10]
        @ BAR_CHART @ S '' **Review Summary:**'' @ [10]
        @ S ''- **Files Reviewed:** '' @ show_nat (length reviews) @ [10]
        @ S ''- **Total Issues:** '' @ show_nat (totalIssues reviews) @ [10]
        @ (if criticalIssues reviews = 0 then []
           else S ''- **Critical Issues:** '' @ WARNING_SIGN @ S '' '' @ show_nat (criticalIssues reviews) @ [10])
        @ (if securityIssues reviews = 0 then []
           else S ''- **Security Issues:** '' @ LOCK @ S '' '' @ show_nat (securityIssues reviews) @ [10])
        @ [10]
        @ concat (map (review_text pr []) reviews)
        @ S ''---'' @ [10]
        @ S ''*Review generated by GitLab AI Reviewer at '' @ now @ S ''*'' @ [10]
        @ S ''*Powered by '' @ toUpperCase (provider cfg) @ S '' '' @ openai_model cfg @ S ''*''"
    by (simp add: generateReviewComment_def files Let_def)
  have c3: "totalIssues reviews =
        sum_list (map (\<lambda>r. case fr_issues r of None \<Rightarrow> 0 | Some is \<Rightarrow> length is) reviews)"
    by (simp add: totalIssues_def foldl_count)
  have c4: "criticalIssues reviews =
        sum_list (map (\<lambda>r. case fr_issues r of None \<Rightarrow> 0
            | Some is \<Rightarrow> length (filter (\<lambda>i. severity i = S ''CRITICAL'') is)) reviews)"
    by (simp add: criticalIssues_def foldl_count)
  have c5: "securityIssues reviews =
        sum_list (map (\<lambda>r. case fr_issues r of None \<Rightarrow> 0
            | Some is \<Rightarrow> length (filter (\<lambda>i. itype i = S ''SECURITY'') is)) reviews)"
    by (simp add: securityIssues_def foldl_count)
  have c6: "fr_error r \<longrightarrow>
      review_text pr [] r =
        S ''### '' @ CROSS_MARK @ S '' '' @ fr_filename r @ [10]
        @ S ''*Error during review: '' @ show_opt (fr_errorMessage r) @ S ''*'' @ [10, 10]"
    by (simp add: review_text_def)
  have c7: "\<not> fr_error r \<and> fr_skipped r \<longrightarrow>
      review_text pr [] r =
        S ''### '' @ NEXT_TRACK @ S '' '' @ fr_filename r @ [10]
        @ S ''*Skipped: '' @ show_opt (fr_reason r) @ S ''*'' @ [10, 10]"
    by (simp add: review_text_def)
  have c8: "\<not> fr_error r \<and> \<not> fr_skipped r \<and> (fr_issues r = None \<or> fr_issues r = Some []) \<longrightarrow>
      review_text pr [] r =
        S ''### '' @ CHECK_MARK @ S '' '' @ fr_filename r @ [10] @ S ''*No issues found*'' @ [10, 10]"
    by (auto simp: review_text_def)
  have c9: "\<not> fr_error r \<and> \<not> fr_skipped r \<and> fr_issues r = Some is \<and> is \<noteq> [] \<longrightarrow>
      review_text pr [] r =
        S ''### '' @ MEMO @ S '' '' @ fr_filename r @ [10]
        @ S ''*'' @ show_nat (length is) @ S '' issue(s) found*'' @ [10, 10]
        @ concat (map (\<lambda>s. severity_group pr [] (s, filter (\<lambda>i. severity i = s) is))
                   [S ''CRITICAL'', S ''HIGH'', S ''MEDIUM'', S ''LOW''])"
  proof
    assume a: "\<not> fr_error r \<and> \<not> fr_skipped r \<and> fr_issues r = Some is \<and> is \<noteq> []"
    then have "review_text pr [] r =
          S ''### '' @ MEMO @ S '' '' @ fr_filename r @ [10]
          @ S ''*'' @ show_nat (length is) @ S '' issue(s) found*'' @ [10, 10]
          @ concat (map (severity_group pr []) (issuesBySeverity is))"
      by (simp add: review_text_def groups)
    then show "review_text pr [] r =
        S ''### '' @ MEMO @ S '' '' @ fr_filename r @ [10]
        @ S ''*'' @ show_nat (length is) @ S '' issue(s) found*'' @ [10, 10]
        @ concat (map (\<lambda>s. severity_group pr [] (s, filter (\<lambda>i. severity i = s) is))
                   [S ''CRITICAL'', S ''HIGH'', S ''MEDIUM'', S ''LOW''])"
      by (simp add: issuesBySeverity_def)
  qed
  have c10: "severity_group pr [] (s, []) = []"
    by (simp add: severity_group_closed)
  have c11: "g \<noteq> [] \<longrightarrow>
      severity_group pr [] (s, g) =
        S ''#### '' @ show_opt (map_of severityIcon s) @ S '' '' @ s @ S '' Issues'' @ [10, 10]
        @ concat (map (issue_text pr []) g)"
    by (simp add: severity_group_closed)
  have c12: "map (\<lambda>s. show_opt (map_of severityIcon s)) [S ''CRITICAL'', S ''HIGH'', S ''MEDIUM'', S ''LOW'']
       = [ROTATING_LIGHT, WARNING_SIGN, HIGH_VOLTAGE, LIGHT_BULB]"
    by (simp add: severityIcon_def show_opt_def S_def)
  have c13: "review_text pr [] (r\<lparr>fr_issues := Some (sort_key (\<lambda>i. severity_rank (severity i)) is)\<rparr>)
       = review_text pr [] (r\<lparr>fr_issues := Some is\<rparr>)"
  proof -
    have "(sort_key (\<lambda>i. severity_rank (severity i)) is = []) = (is = [])"
      by (metis length_sort length_0_conv)
    then show ?thesis by (simp add: review_text_def issuesBySeverity_sort)
  qed
  have c14: "issue_text pr [] i =
        S ''**'' @ itype i @ S ''**''
        @ (if line_truthy (line i) then S '' (Line '' @ show_line pr (line i) @ S '')'' else [])
        @ [10] @ description i @ [10, 10]
        @ (if suggestion i = [] then [] else S ''*Suggestion:* '' @ suggestion i @ [10, 10])
        @ (if example i = [] then []
           else S ''*Example:*'' @ [10] @ S ''```'' @ [10] @ example i @ [10] @ S ''```'' @ [10, 10])"
    by (simp add: issue_text_def Let_def)
  have c15: "n \<noteq> 0 \<and> \<bar>n\<bar> < 2 ^ 53 \<longrightarrow>
      line_truthy (Some (Num n)) \<and> show_line pr (Some (Num n)) = show_int n"
    by (simp add: line_truthy_def show_line_def show_number_def)
  have c16: "\<not> line_truthy None \<and> \<not> line_truthy (Some NaN) \<and> \<not> line_truthy (Some (Num 0))"
    by (simp add: line_truthy_def)
  from c1 c2 c3 c4 c5 c6 c7 c8 c9 c10 c11 c12 c13 c14 c15 c16 show ?thesis by blast
qed

text \<open>
  A review whose LOW issue comes before its CRITICAL one: the CRITICAL group is printed
  first. And a review without issues.
\<close>

theorem generateReviewComment_layout_witness:
  "totalIssues [\<lparr>fr_filename = S ''src/test.js'', fr_language = Some (Lang (S ''javascript'')),
       fr_changeType = Some (S ''modified''), fr_summary = Some (S ''ok''),
       fr_issues = Some [\<lparr>itype = S ''STYLE'', severity = S ''LOW'', line = None, description = S ''Missing semicolon'',
          suggestion = [], example = []\<rparr>,
         \<lparr>itype = S ''SECURITY'', severity = S ''CRITICAL'', line = Some (Num 10),
          description = S ''SQL injection'', suggestion = S ''Bind parameters'', example = []\<rparr>],
       fr_rawReview = Some [], fr_skipped = False, fr_reason = None, fr_error = False,
       fr_errorMessage = None\<rparr>] \<noteq> 0
   \<and> generateReviewComment show_int
       \<lparr>maxDiffSize = 10000, supportedLanguages = [S ''javascript''], skipFiles = [],
       provider = S ''openai'', openai_model = S ''gpt-4''\<rparr>
       (S ''2026-01-01T00:00:00.000Z'')
       [\<lparr>fr_filename = S ''src/test.js'', fr_language = Some (Lang (S ''javascript'')),
       fr_changeType = Some (S ''modified''), fr_summary = Some (S ''ok''),
       fr_issues = Some [\<lparr>itype = S ''STYLE'', severity = S ''LOW'', line = None, description = S ''Missing semicolon'',
          suggestion = [], example = []\<rparr>,
         \<lparr>itype = S ''SECURITY'', severity = S ''CRITICAL'', line = Some (Num 10),
          description = S ''SQL injection'', suggestion = S ''Bind parameters'', example = []\<rparr>],
       fr_rawReview = Some [], fr_skipped = False, fr_reason = None, fr_error = False,
       fr_errorMessage = None\<rparr>]
     = S ''## '' @ ROBOT @ S '' AI Code Review'' @ [10, 10]
       @ BAR_CHART @ S '' **Review Summary:**'' @ [10]
       @ S ''- **Files Reviewed:** 1'' @ [10]
       @ S ''- **Total Issues:** 2'' @ [10]
       @ S ''- **Critical Issues:** '' @ WARNING_SIGN @ S '' 1'' @ [10]
       @ S ''- **Security Issues:** '' @ LOCK @ S '' 1'' @ [10, 10]
       @ S ''### '' @ MEMO @ S '' src/test.js'' @ [10]
       @ S ''*2 issue(s) found*'' @ [10, 10]
       @ S ''#### '' @ ROTATING_LIGHT @ S '' CRITICAL Issues'' @ [10, 10]
       @ S ''**SECURITY** (Line 10)'' @ [10]
       @ S ''SQL injection'' @ [10, 10]
       @ S ''*Suggestion:* Bind parameters'' @ [10, 10]
       @ S ''#### '' @ LIGHT_BULB @ S '' LOW Issues'' @ [10, 10]
       @ S ''**STYLE**'' @ [10]
       @ S ''Missing semicolon'' @ [10, 10]
       @ S ''---'' @ [10]
       @ S ''*Review generated by GitLab AI Reviewer at 2026-01-01T00:00:00.000Z*'' @ [10]
       @ S ''*Powered by OPENAI gpt-4*''
   \<and> totalIssues [\<lparr>fr_filename = S ''README.md'', fr_language = None, fr_changeType = None, fr_summary = None,
       fr_issues = Some [], fr_rawReview = None, fr_skipped = False, fr_reason = None,
       fr_error = False, fr_errorMessage = None\<rparr>] = 0
   \<and> generateReviewComment show_int
       \<lparr>maxDiffSize = 10000, supportedLanguages = [S ''javascript''], skipFiles = [],
       provider = S ''openai'', openai_model = S ''gpt-4''\<rparr>
       (S ''2026-01-01T00:00:00.000Z'')
       [\<lparr>fr_filename = S ''README.md'', fr_language = None, fr_changeType = None, fr_summary = None,
       fr_issues = Some [], fr_rawReview = None, fr_skipped = False, fr_reason = None,
       fr_error = False, fr_errorMessage = None\<rparr>]
     = S ''## '' @ ROBOT @ S '' AI Code Review'' @ [10, 10]
       @ CHECK_MARK @ S '' **Great work!** No issues found in this merge request.'' @ [10, 10]
       @ S ''### '' @ CHECK_MARK @ S '' README.md'' @ [10]
       @ S ''*No issues found*'' @ [10, 10]
       @ S ''---'' @ [10]
       @ S ''*Review generated by GitLab AI Reviewer at 2026-01-01T00:00:00.000Z*'' @ [10]
       @ S ''*Powered by OPENAI gpt-4*''"
proof -
  let ?r = "\<lparr>fr_filename = S ''src/test.js'', fr_language = Some (Lang (S ''javascript'')),
       fr_changeType = Some (S ''modified''), fr_summary = Some (S ''ok''),
       fr_issues = Some [\<lparr>itype = S ''STYLE'', severity = S ''LOW'', line = None, description = S ''Missing semicolon'',
          suggestion = [], example = []\<rparr>,
         \<lparr>itype = S ''SECURITY'', severity = S ''CRITICAL'', line = Some (Num 10),
          description = S ''SQL injection'', suggestion = S ''Bind parameters'', example = []\<rparr>],
       fr_rawReview = Some [], fr_skipped = False, fr_reason = None, fr_error = False,
       fr_errorMessage = None\<rparr>"
  let ?cfg = "\<lparr>maxDiffSize = 10000, supportedLanguages = [S ''javascript''], skipFiles = [],
       provider = S ''openai'', openai_model = S ''gpt-4''\<rparr>"
  have h: "totalIssues [?r] \<noteq> 0" by (simp add: totalIssues_def)
  note t = generateReviewComment_layout [where pr = show_int and reviews = "[?r]" and cfg = ?cfg and now = "S ''2026-01-01T00:00:00.000Z''"]
  from t h have "generateReviewComment show_int ?cfg (S ''2026-01-01T00:00:00.000Z'') [?r] =
        S ''## '' @ ROBOT @ S '' AI Code Review'' @ [10, 10]
        @ BAR_CHART @ S '' **Review Summary:**'' @ [10]
        @ S ''- **Files Reviewed:** '' @ show_nat (length [?r]) @ [10]
        @ S ''- **Total Issues:** '' @ show_nat (totalIssues [?r]) @ [10]
        @ (if criticalIssues [?r] = 0 then []
           else S ''- **Critical Issues:** '' @ WARNING_SIGN @ S '' '' @ show_nat (criticalIssues [?r]) @ [10])
        @ (if securityIssues [?r] = 0 then []
           else S ''- **Security Issues:** '' @ LOCK @ S '' '' @ show_nat (securityIssues [?r]) @ [10])
        @ [10]
        @ concat (map (review_text show_int []) [?r])
        @ S ''---'' @ [10]
        @ S ''*Review generated by GitLab AI Reviewer at '' @ (S ''2026-01-01T00:00:00.000Z'') @ S ''*'' @ [10]
        @ S ''*Powered by '' @ toUpperCase (provider ?cfg) @ S '' '' @ openai_model ?cfg @ S ''*''"
    by blast
  also have "\<dots> = S ''## '' @ ROBOT @ S '' AI Code Review'' @ [10, 10]
       @ BAR_CHART @ S '' **Review Summary:**'' @ [10]
       @ S ''- **Files Reviewed:** 1'' @ [10]
       @ S ''- **Total Issues:** 2'' @ [10]
       @ S ''- **Critical Issues:** '' @ WARNING_SIGN @ S '' 1'' @ [10]
       @ S ''- **Security Issues:** '' @ LOCK @ S '' 1'' @ [10, 10]
       @ S ''### '' @ MEMO @ S '' src/test.js'' @ [10]
       @ S ''*2 issue(s) found*'' @ [10, 10]
       @ S ''#### '' @ ROTATING_LIGHT @ S '' CRITICAL Issues'' @ [10, 10]
       @ S ''**SECURITY** (Line 10)'' @ [10]
       @ S ''SQL injection'' @ [10, 10]
       @ S ''*Suggestion:* Bind parameters'' @ [10, 10]
       @ S ''#### '' @ LIGHT_BULB @ S '' LOW Issues'' @ [10, 10]
       @ S ''**STYLE**'' @ [10]
       @ S ''Missing semicolon'' @ [10, 10]
       @ S ''---'' @ [10]
       @ S ''*Review generated by GitLab AI Reviewer at 2026-01-01T00:00:00.000Z*'' @ [10]
       @ S ''*Powered by OPENAI gpt-4*''" (is "_ = ?full")
    by (simp add: comment_eval)
  finally have a: "generateReviewComment show_int ?cfg (S ''2026-01-01T00:00:00.000Z'') [?r] = ?full" .
  let ?r0 = "\<lparr>fr_filename = S ''README.md'', fr_language = None, fr_changeType = None, fr_summary = None,
       fr_issues = Some [], fr_rawReview = None, fr_skipped = False, fr_reason = None,
       fr_error = False, fr_errorMessage = None\<rparr>"
  have h0: "totalIssues [?r0] = 0" by (simp add: totalIssues_def)
  note t0 = generateReviewComment_layout [where pr = show_int and reviews = "[?r0]" and cfg = ?cfg and now = "S ''2026-01-01T00:00:00.000Z''"]
  from t0 h0 have "generateReviewComment show_int ?cfg (S ''2026-01-01T00:00:00.000Z'') [?r0] =
        S ''## '' @ ROBOT @ S '' AI Code Review'' @ [10, 10]
        @ CHECK_MARK @ S '' **Great work!** No issues found in this merge request.'' @ [10, 10]
        @ concat (map (review_text show_int []) [?r0])
        @ S ''---'' @ [10]
        @ S ''*Review generated by GitLab AI Reviewer at '' @ (S ''2026-01-01T00:00:00.000Z'') @ S ''*'' @ [10]
        @ S ''*Powered by '' @ toUpperCase (provider ?cfg) @ S '' '' @ openai_model ?cfg @ S ''*''"
    by blast
  also have "\<dots> = S ''## '' @ ROBOT @ S '' AI Code Review'' @ [10, 10]
       @ CHECK_MARK @ S '' **Great work!** No issues found in this merge request.'' @ [10, 10]
       @ S ''### '' @ CHECK_MARK @ S '' README.md'' @ [10]
       @ S ''*No issues found*'' @ [10, 10]
       @ S ''---'' @ [10]
       @ S ''*Review generated by GitLab AI Reviewer at 2026-01-01T00:00:00.000Z*'' @ [10]
       @ S ''*Powered by OPENAI gpt-4*''"
    by (simp add: comment_eval)
  finally have b: "generateReviewComment show_int ?cfg (S ''2026-01-01T00:00:00.000Z'') [?r0] = S ''## '' @ ROBOT @ S '' AI Code Review'' @ [10, 10]
       @ CHECK_MARK @ S '' **Great work!** No issues found in this merge request.'' @ [10, 10]
       @ S ''### '' @ CHECK_MARK @ S '' README.md'' @ [10]
       @ S ''*No issues found*'' @ [10, 10]
       @ S ''---'' @ [10]
       @ S ''*Review generated by GitLab AI Reviewer at 2026-01-01T00:00:00.000Z*'' @ [10]
       @ S ''*Powered by OPENAI gpt-4*''" .
  from h a h0 b show ?thesis by blast
qed

text \<open>
  Claim C9. \<open>extractSummary\<close> collects the trimmed non-empty lines of the response that do
  not start with \<open>- **\<close>, stops at the first trimmed line that does, joins what it
  collected with a single space, and returns the fixed default summary when the result is
  empty.
\<close>

theorem extractSummary_collects: "extractSummary reviewText = summary_spec reviewText"
proof -
  let ?c = "filter (\<lambda>t. t \<noteq> [])
            (takeWhile (\<lambda>t. \<not> startsWith t (S ''- **'')) (map trim (split_nl reviewText)))"
  have "\<forall>x\<in>set ?c. x \<noteq> [] \<and> \<not> is_ws (hd x) \<and> \<not> is_ws (last x)"
  proof
    fix x assume "x \<in> set ?c"
    then have "x \<noteq> []" "x \<in> set (map trim (split_nl reviewText))"
      by (auto dest: set_takeWhileD)
    then obtain l where "x = trim l" by auto
    with \<open>x \<noteq> []\<close> trim_result_tight [of l]
    show "x \<noteq> [] \<and> \<not> is_ws (hd x) \<and> \<not> is_ws (last x)" by simp
  qed
  then have "trim (join (S '' '') ?c) = join (S '' '') ?c" by (rule trim_join_tight)
  then show ?thesis
    by (simp add: extractSummary_def summary_spec_def summary_loop_eq Let_def)
qed


text \<open>
  Claim C10. For every input string, \<open>parseReview\<close> returns as many issues as there are
  lines that, after trimming, start with the Issue Type marker; the issues appear in the
  order of their marker lines, each with the type its marker line carries, so no issue is
  lost or duplicated.
\<close>

theorem parseReview_issue_per_marker:
  "length (issues (parseReview reviewText)) =
     length (filter is_issue_marker (split_nl reviewText))
   \<and> map itype (issues (parseReview reviewText)) =
     map (\<lambda>ln. extractValue (trim ln)) (filter is_issue_marker (split_nl reviewText))"
proof -
  have t: "map itype (issues (parseReview reviewText)) =
     map (\<lambda>ln. extractValue (trim ln)) (filter is_issue_marker (split_nl reviewText))"
    by (simp add: parseReview_def parse_lines_types)
  from t have "length (issues (parseReview reviewText)) =
     length (filter is_issue_marker (split_nl reviewText))"
    by (rule map_eq_imp_length_eq)
  then show ?thesis using t by blast
qed

end
